theory Spec2Isabelle
  imports Complex_Main "HOL-Library.Stream"
begin

section \<open>Numbers and random draws\<close>

text \<open>
  The simulation computes with C++ \<^verbatim>\<open>float\<close> and \<^verbatim>\<open>int\<close>.  A \<^verbatim>\<open>float\<close> is an IEEE 754
  binary32 number: a real number with a significand of 24 bits and an exponent between
  \<open>-126\<close> and \<open>127\<close> (the subnormal numbers included), one of the two infinities, or a
  NaN.  Every arithmetic operation computes the exact result and rounds it to the nearest
  binary32 number, a tie to the one with the even significand; a result of magnitude
  \<open>2\<^sup>1\<^sup>2\<^sup>8\<close> or more after rounding is an infinity.  Arithmetic with a NaN gives
  NaN and every comparison with a NaN is false.  Each operation of an expression is
  rounded on its own, in the order in which C++ evaluates the expression: a product and a
  sum are not contracted into one fused operation.  The second program keeps its samples
  as \<^verbatim>\<open>double\<close>, binary64, which differs by the constants only.

  The type below has a value \<open>Fin x\<close> for every real number \<open>x\<close>; the \<^verbatim>\<open>float\<close>s are
  those whose \<open>x\<close> is a binary32 number, and every operation returns one of them.  What
  is proved for all values holds for the \<^verbatim>\<open>float\<close>s.

  The sign of a zero is not modelled: \<open>Fin 0\<close> stands for both zeros.  The sign matters
  for a division by zero alone, and the only divisor of the program that can be zero is a
  square root, whose zero is positive; the model divides by \<open>Fin 0\<close> as by \<open>+0\<close>.  An
  \<^verbatim>\<open>int\<close> is an unbounded integer: the coin counts and indices of the program stay far
  from the 32-bit limits.
\<close>

datatype float = Fin real | PInf | NInf | NaN

text \<open>\<open>2\<^sup>e\<close> for an integer \<open>e\<close>, and the rounding of a real number to the nearest
  integer, a tie to the even one.\<close>

definition pow2 :: "int \<Rightarrow> real" where
  "pow2 e = (if 0 \<le> e then 2 ^ nat e else 1 / 2 ^ nat (- e))"

definition rne :: "real \<Rightarrow> int" where
  "rne x = (let f = \<lfloor>x\<rfloor>
            in if x - of_int f < 1 / 2 then f
               else if 1 / 2 < x - of_int f then f + 1
               else if even f then f else f + 1)"

text \<open>
  The rounding of the real number \<open>x\<close> to the format with \<open>p\<close> bits of significand,
  least exponent \<open>emin\<close> and overflow threshold \<open>2\<^sup>e\<^sup>m\<^sup>a\<^sup>x\<close>: the spacing of the
  format at \<open>x\<close> is \<open>ulp\<close>, and \<open>x\<close> goes to the nearest multiple of it.
\<close>

definition round_ieee :: "int \<Rightarrow> int \<Rightarrow> int \<Rightarrow> real \<Rightarrow> float" where
  "round_ieee p emin emax x =
     (if x = 0 then Fin 0
      else
        (let e = max \<lfloor>log 2 \<bar>x\<bar>\<rfloor> emin;
             ulp = pow2 (e - p + 1);
             r = of_int (rne (x / ulp)) * ulp
         in if pow2 emax \<le> r then PInf
            else if r \<le> - pow2 emax then NInf
            else Fin r))"

definition round32 :: "real \<Rightarrow> float" where
  "round32 = round_ieee 24 (- 126) 128"

definition round64 :: "real \<Rightarrow> float" where
  "round64 = round_ieee 53 (- 1022) 1024"

text \<open>Division, for either format.\<close>

fun div_with :: "(real \<Rightarrow> float) \<Rightarrow> float \<Rightarrow> float \<Rightarrow> float" where
  "div_with rnd (Fin a) (Fin b) =
     (if b = 0 then (if a = 0 then NaN else if 0 < a then PInf else NInf) else rnd (a / b))"
| "div_with rnd NaN _ = NaN"
| "div_with rnd _ NaN = NaN"
| "div_with rnd (Fin a) _ = Fin 0"
| "div_with rnd PInf (Fin b) = (if 0 \<le> b then PInf else NInf)"
| "div_with rnd NInf (Fin b) = (if 0 \<le> b then NInf else PInf)"
| "div_with rnd PInf PInf = NaN"
| "div_with rnd PInf NInf = NaN"
| "div_with rnd NInf PInf = NaN"
| "div_with rnd NInf NInf = NaN"

text \<open>The operators of \<^verbatim>\<open>float\<close>.\<close>

instantiation float :: "{plus,minus,times,inverse,uminus,ord}"
begin

fun uminus_float :: "float \<Rightarrow> float" where
  "uminus_float (Fin a) = Fin (- a)"
| "uminus_float PInf = NInf"
| "uminus_float NInf = PInf"
| "uminus_float NaN = NaN"

fun plus_float :: "float \<Rightarrow> float \<Rightarrow> float" where
  "plus_float (Fin a) (Fin b) = round32 (a + b)"
| "plus_float NaN _ = NaN"
| "plus_float _ NaN = NaN"
| "plus_float PInf NInf = NaN"
| "plus_float NInf PInf = NaN"
| "plus_float PInf _ = PInf"
| "plus_float _ PInf = PInf"
| "plus_float NInf _ = NInf"
| "plus_float _ NInf = NInf"

fun minus_float :: "float \<Rightarrow> float \<Rightarrow> float" where
  "minus_float a b = a + (- b)"

fun times_float :: "float \<Rightarrow> float \<Rightarrow> float" where
  "times_float (Fin a) (Fin b) = round32 (a * b)"
| "times_float NaN _ = NaN"
| "times_float _ NaN = NaN"
| "times_float (Fin a) PInf = (if a = 0 then NaN else if 0 < a then PInf else NInf)"
| "times_float (Fin a) NInf = (if a = 0 then NaN else if 0 < a then NInf else PInf)"
| "times_float PInf (Fin b) = (if b = 0 then NaN else if 0 < b then PInf else NInf)"
| "times_float NInf (Fin b) = (if b = 0 then NaN else if 0 < b then NInf else PInf)"
| "times_float PInf PInf = PInf"
| "times_float PInf NInf = NInf"
| "times_float NInf PInf = NInf"
| "times_float NInf NInf = PInf"

fun divide_float :: "float \<Rightarrow> float \<Rightarrow> float" where
  "divide_float a b = div_with round32 a b"

fun inverse_float :: "float \<Rightarrow> float" where
  "inverse_float a = div_with round32 (Fin 1) a"

fun less_float :: "float \<Rightarrow> float \<Rightarrow> bool" where
  "less_float (Fin a) (Fin b) = (a < b)"
| "less_float NaN _ = False"
| "less_float _ NaN = False"
| "less_float NInf NInf = False"
| "less_float NInf _ = True"
| "less_float _ NInf = False"
| "less_float PInf _ = False"
| "less_float _ PInf = True"

fun less_eq_float :: "float \<Rightarrow> float \<Rightarrow> bool" where
  "less_eq_float (Fin a) (Fin b) = (a \<le> b)"
| "less_eq_float NaN _ = False"
| "less_eq_float _ NaN = False"
| "less_eq_float NInf _ = True"
| "less_eq_float _ NInf = False"
| "less_eq_float _ PInf = True"
| "less_eq_float PInf _ = False"

instance ..

end

declare minus_float.simps [simp del] divide_float.simps [simp del] inverse_float.simps [simp del]

text \<open>
  \<^verbatim>\<open>std::sqrt\<close>, which rounds correctly; the conversion of an \<^verbatim>\<open>int\<close> operand to
  \<^verbatim>\<open>float\<close> or to \<^verbatim>\<open>double\<close>; and the division of two \<^verbatim>\<open>double\<close>s.  A literal such as
  \<^verbatim>\<open>0.1f\<close> is the rounding of its decimal value, \<open>round32 (1 / 10)\<close>.
\<close>

fun fsqrt :: "float \<Rightarrow> float" where
  "fsqrt (Fin a) = (if a < 0 then NaN else round32 (sqrt a))"
| "fsqrt PInf = PInf"
| "fsqrt NInf = NaN"
| "fsqrt NaN = NaN"

definition of_int_f :: "int \<Rightarrow> float" where
  "of_int_f i = round32 (real_of_int i)"

definition of_int_d :: "int \<Rightarrow> float" where
  "of_int_d i = round64 (real_of_int i)"

definition ddiv :: "float \<Rightarrow> float \<Rightarrow> float" where
  "ddiv a b = div_with round64 a b"

text \<open>
  \<^verbatim>\<open>std::mt19937\<close> and the distributions of \<^verbatim>\<open><random>\<close> belong to the C++ standard
  library.  The generator is abstracted as the infinite tape of the raw 32-bit words it
  will still produce; a distribution reads the head of the tape and moves on, so a seed is
  a tape.  A real distribution on \<open>[a, b)\<close> does what libstdc++ does: the word, converted
  to \<^verbatim>\<open>float\<close> and divided by \<open>2\<^sup>3\<^sup>2\<close>, is the canonical number \<open>u\<close> in \<open>[0, 1)\<close> (a
  quotient that rounds to 1 is replaced by the largest \<^verbatim>\<open>float\<close> below 1), and the draw
  is \<open>u * (b - a) + a\<close>.  An integer distribution on \<open>[a, b]\<close> reduces the word modulo the
  size of the range.
\<close>

type_synonym mt19937 = "nat stream"

definition generate_canonical :: "mt19937 \<Rightarrow> float \<times> mt19937" where
  "generate_canonical rng =
     (let u = of_int_f (int (shd rng mod 2 ^ 32)) / Fin (2 ^ 32)
      in (if Fin 1 \<le> u then Fin (1 - 1 / 2 ^ 24) else u, stl rng))"

definition uniform_real_distribution :: "float \<Rightarrow> float \<Rightarrow> mt19937 \<Rightarrow> float \<times> mt19937" where
  "uniform_real_distribution a b rng =
     (let (u, rng') = generate_canonical rng in (u * (b - a) + a, rng'))"

definition uniform_int_distribution :: "nat \<Rightarrow> nat \<Rightarrow> mt19937 \<Rightarrow> nat \<times> mt19937" where
  "uniform_int_distribution a b rng = (a + shd rng mod (b - a + 1), stl rng)"

section \<open>The disk and its collision with another disk (disk\_sim.cpp, lines 1--152)\<close>

text \<open>
  \<^verbatim>\<open>struct Disk { float x, y; float vx, vy; int radius; int coin_count; }\<close>.
  The position fields are called \<open>px\<close> and \<open>py\<close> here, so that \<open>x\<close> and \<open>y\<close> stay
  free for variables.
\<close>

record Disk =
  px :: float
  py :: float
  vx :: float
  vy :: float
  radius :: int
  coin_count :: int

definition WIDTH :: int where "WIDTH = 800"
definition CHART_TOP :: real where "CHART_TOP = 400"
definition DISK_RADIUS :: int where "DISK_RADIUS = 20"
definition DISK_COUNT :: nat where "DISK_COUNT = 20"
definition MAX_COINS_PER_DISK :: int where "MAX_COINS_PER_DISK = 25"

text \<open>
  What stops the program: \<^verbatim>\<open>main\<close> prints \<^verbatim>\<open>Failed to place disk i\<close> and returns 1;
  \<^verbatim>\<open>std::vector::reserve\<close> throws \<^verbatim>\<open>std::length_error\<close>, which nothing catches, when
  its argument exceeds the largest size of a vector, as every negative \<^verbatim>\<open>int\<close> does
  once converted to \<^verbatim>\<open>size_t\<close>; an index outside a vector is undefined behaviour, which
  the build the repository prescribes (\<^verbatim>\<open>-fsanitize=address\<close>) turns into an abort.
\<close>

datatype error = PlacementFailure nat | LengthError | OutOfBounds int

definition distance :: "Disk \<Rightarrow> Disk \<Rightarrow> float" where
  "distance a b =
     (let dx = px b - px a;
          dy = py b - py a
      in fsqrt (dx * dx + dy * dy))"

text \<open>
  \<^verbatim>\<open>handle_disk_collision\<close> updates both disks in place, advances the generator and
  returns whether the disks collided; the model returns all four, unless the program
  stops.  Its body is the sequence of the three blocks the source marks with comments: the
  elastic collision, the coin exchange and the overlap fix.
\<close>

definition elastic_collision :: "float \<Rightarrow> float \<Rightarrow> Disk \<Rightarrow> Disk \<Rightarrow> Disk \<times> Disk" where
  "elastic_collision nx ny d1 d2 =
     (let v1n = vx d1 * nx + vy d1 * ny;
          v2n = vx d2 * nx + vy d2 * ny
      in (d1\<lparr>vx := vx d1 + (v2n - v1n) * nx, vy := vy d1 + (v2n - v1n) * ny\<rparr>,
          d2\<lparr>vx := vx d2 + (v1n - v2n) * nx, vy := vy d2 + (v1n - v2n) * ny\<rparr>))"

text \<open>
  The loop \<^verbatim>\<open>for (coins_in_d1 = 0; coins_in_d1 <= total_coins; coins_in_d1++)\<close> that
  collects the admissible splits, for the coin limit \<open>maxc\<close>; before it, the call
  \<^verbatim>\<open>possible_redistributions.reserve(total_coins + 1)\<close>.
\<close>

definition possible_redistributions :: "int \<Rightarrow> int \<Rightarrow> (int \<times> int) list" where
  "possible_redistributions maxc total_coins =
     map (\<lambda>coins_in_d1. (coins_in_d1, total_coins - coins_in_d1))
       (filter (\<lambda>coins_in_d1. coins_in_d1 \<le> maxc \<and> total_coins - coins_in_d1 \<le> maxc)
          [0..total_coins])"

definition uniform_redistribution ::
    "int \<Rightarrow> Disk \<Rightarrow> Disk \<Rightarrow> mt19937 \<Rightarrow> error + Disk \<times> Disk \<times> mt19937" where
  "uniform_redistribution maxc d1 d2 rng =
     (let total_coins = coin_count d1 + coin_count d2
      in if total_coins + 1 < 0 then Inl LengthError
         else
           (let possible = possible_redistributions maxc total_coins
            in if possible \<noteq> [] then
                 (let (idx, rng') = uniform_int_distribution 0 (length possible - 1) rng
                  in Inr (d1\<lparr>coin_count := fst (possible ! idx)\<rparr>,
                          d2\<lparr>coin_count := snd (possible ! idx)\<rparr>, rng'))
               else Inr (d1, d2, rng)))"

definition overlap_fix :: "float \<Rightarrow> float \<Rightarrow> float \<Rightarrow> Disk \<Rightarrow> Disk \<Rightarrow> Disk \<times> Disk" where
  "overlap_fix nx ny dst d1 d2 =
     (let overlap = of_int_f (radius d1 + radius d2) - dst
      in if Fin 0 < overlap then
           (let half = overlap * Fin 0.5
            in (d1\<lparr>px := px d1 - nx * half, py := py d1 - ny * half\<rparr>,
                d2\<lparr>px := px d2 + nx * half, py := py d2 + ny * half\<rparr>))
         else (d1, d2))"

definition handle_disk_collision ::
    "Disk \<Rightarrow> Disk \<Rightarrow> mt19937 \<Rightarrow> error + Disk \<times> Disk \<times> mt19937 \<times> bool" where
  "handle_disk_collision d1 d2 rng =
     (let dst = distance d1 d2
      in if dst < of_int_f (radius d1 + radius d2) then
           (let nx = (px d2 - px d1) / dst;
                ny = (py d2 - py d1) / dst;
                (d1a, d2a) = elastic_collision nx ny d1 d2
            in case uniform_redistribution MAX_COINS_PER_DISK d1a d2a rng of
                 Inl e \<Rightarrow> Inl e
               | Inr (d1b, d2b, rng') \<Rightarrow>
                   (let (d1c, d2c) = overlap_fix nx ny dst d1b d2b
                    in Inr (d1c, d2c, rng', True)))
         else Inr (d1, d2, rng, False))"

section \<open>Placement of the disks (disk\_sim.cpp, lines 64--102 and 337--359)\<close>

definition is_valid_position :: "Disk list \<Rightarrow> float \<Rightarrow> float \<Rightarrow> int \<Rightarrow> bool" where
  "is_valid_position existing_disks x y r =
     (if x - of_int_f r < Fin 0 \<or> x + of_int_f r > of_int_f WIDTH \<or>
         y - of_int_f r < Fin 0 \<or> y + of_int_f r > Fin CHART_TOP
      then False
      else list_all
             (\<lambda>disk. let dx = x - px disk;
                          dy = y - py disk;
                          min_dist = of_int_f (r + radius disk) * round32 (11 / 10)
                      in \<not> dx * dx + dy * dy < min_dist * min_dist)
             existing_disks)"

text \<open>
  The loop \<^verbatim>\<open>for (int i = 0; i < max_attempts; i++)\<close> of \<^verbatim>\<open>find_valid_position\<close>,
  by the number of attempts that remain.
\<close>

fun find_valid_position ::
    "Disk list \<Rightarrow> mt19937 \<Rightarrow> int \<Rightarrow> nat \<Rightarrow> (float \<times> float) option \<times> mt19937" where
  "find_valid_position existing_disks rng r 0 = (None, rng)"
| "find_valid_position existing_disks rng r (Suc max_attempts) =
     (let (x, rng1) = uniform_real_distribution (of_int_f r) (of_int_f (WIDTH - r)) rng;
          (y, rng2) = uniform_real_distribution (of_int_f r) (Fin CHART_TOP - of_int_f r) rng1
      in if is_valid_position existing_disks x y r then (Some (x, y), rng2)
         else find_valid_position existing_disks rng2 r max_attempts)"

text \<open>The loop of \<^verbatim>\<open>main\<close> that creates the disks, from disk \<open>i\<close> on.\<close>

function place_disks :: "nat \<Rightarrow> Disk list \<Rightarrow> mt19937 \<Rightarrow> error + Disk list \<times> mt19937" where
  "place_disks i disks rng =
     (if i < DISK_COUNT then
        (case find_valid_position disks rng DISK_RADIUS 1000 of
           (None, rng1) \<Rightarrow> Inl (PlacementFailure i)
         | (Some (x, y), rng1) \<Rightarrow>
             (let (u, rng2) = uniform_real_distribution (Fin (- 200)) (Fin 200) rng1;
                  (w, rng3) = uniform_real_distribution (Fin (- 200)) (Fin 200) rng2;
                  initial_coins = (if i = 0 then MAX_COINS_PER_DISK else 0)
              in place_disks (i + 1)
                   (disks @ [\<lparr>px = x, py = y, vx = u, vy = w, radius = DISK_RADIUS,
                              coin_count = initial_coins\<rparr>])
                   rng3))
      else Inr (disks, rng))"
  by pat_completeness auto
termination
  by (relation "measure (\<lambda>(i, disks, rng). DISK_COUNT - i)") auto

declare place_disks.simps [simp del]

definition initialize_population :: "mt19937 \<Rightarrow> error + Disk list \<times> mt19937" where
  "initialize_population rng = place_disks 0 [] rng"

text \<open>
  The states \<open>(i, disks, rng)\<close> in which that loop, started with the generator \<open>rng0\<close>,
  reaches its head.
\<close>

inductive loop_state :: "mt19937 \<Rightarrow> nat \<Rightarrow> Disk list \<Rightarrow> mt19937 \<Rightarrow> bool"
  for rng0 :: mt19937 where
  loop_start: "loop_state rng0 0 [] rng0"
| loop_next:
    "loop_state rng0 i disks rng \<Longrightarrow> i < DISK_COUNT \<Longrightarrow>
     find_valid_position disks rng DISK_RADIUS 1000 = (Some (x, y), rng1) \<Longrightarrow>
     uniform_real_distribution (Fin (- 200)) (Fin 200) rng1 = (u, rng2) \<Longrightarrow>
     uniform_real_distribution (Fin (- 200)) (Fin 200) rng2 = (w, rng3) \<Longrightarrow>
     loop_state rng0 (i + 1)
       (disks @ [\<lparr>px = x, py = y, vx = u, vy = w, radius = DISK_RADIUS,
                  coin_count = (if i = 0 then MAX_COINS_PER_DISK else 0)\<rparr>])
       rng3"

section \<open>Motion, sampling and the tick (disk\_sim.cpp, lines 154--194 and 407--430)\<close>

text \<open>The global \<^verbatim>\<open>g_speedFactor\<close> is the first argument.\<close>

definition update_position :: "float \<Rightarrow> Disk \<Rightarrow> float \<Rightarrow> Disk" where
  "update_position speed disk dt =
     (let disk1 = disk\<lparr>px := px disk + vx disk * dt * speed,
                        py := py disk + vy disk * dt * speed\<rparr>;
          disk2 = (if px disk1 - of_int_f (radius disk1) < Fin 0
                   then disk1\<lparr>px := of_int_f (radius disk1), vx := - vx disk1\<rparr>
                   else if px disk1 + of_int_f (radius disk1) > of_int_f WIDTH
                   then disk1\<lparr>px := of_int_f (WIDTH - radius disk1), vx := - vx disk1\<rparr>
                   else disk1)
      in if py disk2 - of_int_f (radius disk2) < Fin 0
         then disk2\<lparr>py := of_int_f (radius disk2), vy := - vy disk2\<rparr>
         else if py disk2 + of_int_f (radius disk2) > Fin CHART_TOP
         then disk2\<lparr>py := Fin CHART_TOP - of_int_f (radius disk2), vy := - vy disk2\<rparr>
         else disk2)"

text \<open>
  The state of the program between two frames: the locals \<^verbatim>\<open>disks\<close>, \<^verbatim>\<open>rng\<close> and
  \<^verbatim>\<open>time_since_plot\<close> of \<^verbatim>\<open>main\<close>, and the globals.
  The vectors \<^verbatim>\<open>cumulative_counts\<close>, \<^verbatim>\<open>xdata\<close>, \<^verbatim>\<open>ydata\<close> and \<^verbatim>\<open>g_coinFraction\<close> hold
  \<^verbatim>\<open>MAX_COINS_PER_DISK + 1\<close> entries each from the start of the program on.
\<close>

record Sim =
  the_disks :: "Disk list"
  the_rng :: mt19937
  g_speedFactor :: float
  collision_count :: int
  cumulative_counts :: "int list"
  xdata :: "float list list"
  ydata :: "float list list"
  g_coinFraction :: "float list"
  time_since_plot :: float

text \<open>
  The first loop of \<^verbatim>\<open>update_plot\<close>, \<^verbatim>\<open>counts[d.coin_count]++\<close>: a coin count that is not
  an index of \<^verbatim>\<open>counts\<close> is an access outside the vector.
\<close>

fun count_coins :: "Disk list \<Rightarrow> int list \<Rightarrow> error + int list" where
  "count_coins [] counts = Inr counts"
| "count_coins (d # ds) counts =
     (if 0 \<le> coin_count d \<and> nat (coin_count d) < length counts
      then count_coins ds (counts[nat (coin_count d) := counts ! nat (coin_count d) + 1])
      else Inl (OutOfBounds (coin_count d)))"

definition update_plot :: "Sim \<Rightarrow> error + Sim" where
  "update_plot s =
     (let n = nat (MAX_COINS_PER_DISK + 1)
      in case count_coins (the_disks s) (replicate n 0) of
           Inl e \<Rightarrow> Inl e
         | Inr counts \<Rightarrow>
             (let cumulative = map (\<lambda>i. cumulative_counts s ! i + counts ! i) [0..<n];
                  avgNum = (\<lambda>i. if collision_count s > 0
                                 then of_int_f (cumulative ! i) / of_int_f (collision_count s)
                                 else Fin 0)
              in Inr (s\<lparr>cumulative_counts := cumulative,
                        xdata := map (\<lambda>i. xdata s ! i @ [of_int_f (collision_count s)]) [0..<n],
                        ydata := map (\<lambda>i. ydata s ! i @ [avgNum i]) [0..<n],
                        g_coinFraction := map avgNum [0..<n]\<rparr>)))"

text \<open>
  The nested loops \<^verbatim>\<open>for i < DISK_COUNT, for j = i+1 .. < DISK_COUNT\<close> visit the index
  pairs in this order; each visit replaces \<^verbatim>\<open>disks[i]\<close> and \<^verbatim>\<open>disks[j]\<close> by what
  \<^verbatim>\<open>handle_disk_collision\<close> makes of them.  The vector holds \<^verbatim>\<open>DISK_COUNT\<close> disks.
\<close>

definition index_pairs :: "nat \<Rightarrow> (nat \<times> nat) list" where
  "index_pairs n = concat (map (\<lambda>i. map (\<lambda>j. (i, j)) [i + 1..<n]) [0..<n])"

definition collide_pair ::
    "nat \<times> nat \<Rightarrow> error + Disk list \<times> mt19937 \<times> int \<Rightarrow> error + Disk list \<times> mt19937 \<times> int"
    where
  "collide_pair ij st =
     (case st of
        Inl e \<Rightarrow> Inl e
      | Inr (ds, rng, collisions_this_frame) \<Rightarrow>
          (let (i, j) = ij
           in case handle_disk_collision (ds ! i) (ds ! j) rng of
                Inl e \<Rightarrow> Inl e
              | Inr (d1, d2, rng', collided) \<Rightarrow>
                  Inr (ds[i := d1, j := d2], rng',
                       if collided then collisions_this_frame + 1 else collisions_this_frame)))"

definition check_collisions ::
    "Disk list \<Rightarrow> mt19937 \<Rightarrow> error + Disk list \<times> mt19937 \<times> int" where
  "check_collisions ds rng = fold collide_pair (index_pairs DISK_COUNT) (Inr (ds, rng, 0))"

text \<open>
  One pass of the main loop over the simulation, for the frame time \<open>dt\<close>, in the two
  parts that the specification calls \<^verbatim>\<open>step\<close> and \<^verbatim>\<open>maybe_sample\<close>: lines 409--423
  move the disks, resolve the collisions and add them to \<^verbatim>\<open>collision_count\<close>; lines
  425--430 advance \<^verbatim>\<open>time_since_plot\<close> and sample when it is time.
\<close>

definition step :: "float \<Rightarrow> Sim \<Rightarrow> error + Sim" where
  "step dt s =
     (let moved = map (\<lambda>d. update_position (g_speedFactor s) d dt) (the_disks s)
      in case check_collisions moved (the_rng s) of
           Inl e \<Rightarrow> Inl e
         | Inr (ds, rng', collisions_this_frame) \<Rightarrow>
             Inr (s\<lparr>the_disks := ds, the_rng := rng',
                     collision_count := collision_count s + collisions_this_frame\<rparr>))"

definition maybe_sample :: "float \<Rightarrow> Sim \<Rightarrow> error + Sim" where
  "maybe_sample dt s =
     (let s1 = s\<lparr>time_since_plot := time_since_plot s + dt\<rparr>
      in if round32 (1 / 10) \<le> time_since_plot s1 \<and> collision_count s1 > 0
         then (case update_plot s1 of
                 Inl e \<Rightarrow> Inl e
               | Inr s2 \<Rightarrow> Inr (s2\<lparr>time_since_plot := Fin 0\<rparr>))
         else Inr s1)"

definition tick :: "float \<Rightarrow> Sim \<Rightarrow> error + Sim" where
  "tick dt s = (case step dt s of Inl e \<Rightarrow> Inl e | Inr s1 \<Rightarrow> maybe_sample dt s1)"

section \<open>The independent-trial coin exchange of the other programs\<close>

text \<open>
  The file disk\_sim.cpp holds three programs, one after the other, and
  src/unnamed/part\_000 a fourth.  The first (lines 1--469) is the one above.  The other
  three share the elastic collision and exchange coins by fair coin flips; their coin
  limit \<^verbatim>\<open>MAX_COINS_PER_DISK\<close> is 8, with 6 disks of radius 40, and the second program
  lets the disks move down to \<^verbatim>\<open>HEIGHT\<close>.
\<close>

definition MAX_COINS_PER_DISK_8 :: int where "MAX_COINS_PER_DISK_8 = 8"
definition DISK_COUNT_6 :: nat where "DISK_COUNT_6 = 6"
definition HEIGHT :: int where "HEIGHT = 600"

text \<open>
  The loop \<^verbatim>\<open>for (int i = 0; i < total; i++) if (dist01(rng) < 0.5f) moving++\<close>, by the
  number of flips that remain:
\<close>

fun coin_flips :: "nat \<Rightarrow> int \<Rightarrow> mt19937 \<Rightarrow> int \<times> mt19937" where
  "coin_flips 0 moving rng = (moving, rng)"
| "coin_flips (Suc n) moving rng =
     (let (u, rng') = uniform_real_distribution (Fin 0) (Fin 1) rng
      in coin_flips n (if u < Fin 0.5 then moving + 1 else moving) rng')"

text \<open>
  The two transfers and the clamp.  The numbers of flips, \<^verbatim>\<open>total_coins_d1\<close> and
  \<^verbatim>\<open>total_coins_d2\<close>, are read by the caller before the block runs.
\<close>

definition standard_exchange ::
    "int \<Rightarrow> int \<Rightarrow> int \<Rightarrow> Disk \<Rightarrow> Disk \<Rightarrow> mt19937 \<Rightarrow> Disk \<times> Disk \<times> mt19937" where
  "standard_exchange maxc total_coins_d1 total_coins_d2 d1 d2 rng =
     (let (coins_to_d2, rng1) = coin_flips (nat total_coins_d1) 0 rng;
          d1a = d1\<lparr>coin_count := coin_count d1 - coins_to_d2\<rparr>;
          d2a = d2\<lparr>coin_count := coin_count d2 + coins_to_d2\<rparr>;
          (coins_to_d1, rng2) = coin_flips (nat total_coins_d2) 0 rng1;
          d2b = d2a\<lparr>coin_count := coin_count d2a - coins_to_d1\<rparr>;
          d1b = d1a\<lparr>coin_count := coin_count d1a + coins_to_d1\<rparr>;
          d1c = (if coin_count d1b > maxc then d1b\<lparr>coin_count := maxc\<rparr> else d1b);
          d2c = (if coin_count d2b > maxc then d2b\<lparr>coin_count := maxc\<rparr> else d2b)
      in (d1c, d2c, rng2))"

text \<open>The block \<^verbatim>\<open>// Special case: Handle 0-coin disks\<close> of the third program.\<close>

definition zero_coin_case :: "Disk \<Rightarrow> Disk \<Rightarrow> mt19937 \<Rightarrow> Disk \<times> Disk \<times> mt19937" where
  "zero_coin_case d1 d2 rng =
     (let (d1a, d2a, rng1) =
            (if coin_count d1 = 0 \<and> coin_count d2 > 0 then
               (let (u, rng') = uniform_real_distribution (Fin 0) (Fin 1) rng
                in if u < Fin 0.5
                   then (d1\<lparr>coin_count := coin_count d1 + 1\<rparr>,
                         d2\<lparr>coin_count := coin_count d2 - 1\<rparr>, rng')
                   else (d1, d2, rng'))
             else (d1, d2, rng))
      in if coin_count d2a = 0 \<and> coin_count d1a > 0 then
           (let (u, rng') = uniform_real_distribution (Fin 0) (Fin 1) rng1
            in if u < Fin 0.5
               then (d1a\<lparr>coin_count := coin_count d1a - 1\<rparr>,
                     d2a\<lparr>coin_count := coin_count d2a + 1\<rparr>, rng')
               else (d1a, d2a, rng'))
         else (d1a, d2a, rng1))"

text \<open>\<^verbatim>\<open>handle_disk_collision\<close> of the second program (disk\_sim.cpp, lines 509--552).\<close>

definition handle_disk_collision_sdl ::
    "Disk \<Rightarrow> Disk \<Rightarrow> mt19937 \<Rightarrow> Disk \<times> Disk \<times> mt19937 \<times> bool" where
  "handle_disk_collision_sdl d1 d2 rng =
     (let dst = distance d1 d2
      in if dst < of_int_f (radius d1 + radius d2) then
           (let nx = (px d2 - px d1) / dst;
                ny = (py d2 - py d1) / dst;
                (d1a, d2a) = elastic_collision nx ny d1 d2;
                (d1b, d2b, rng') =
                  standard_exchange MAX_COINS_PER_DISK_8 (coin_count d1a) (coin_count d2a)
                    d1a d2a rng
            in (d1b, d2b, rng', True))
         else (d1, d2, rng, False))"

text \<open>\<^verbatim>\<open>handle_disk_collision\<close> of the third program (disk\_sim.cpp, lines 869--940).\<close>

definition handle_disk_collision_zero ::
    "Disk \<Rightarrow> Disk \<Rightarrow> mt19937 \<Rightarrow> Disk \<times> Disk \<times> mt19937 \<times> bool" where
  "handle_disk_collision_zero d1 d2 rng =
     (let dst = distance d1 d2
      in if dst < of_int_f (radius d1 + radius d2) then
           (let nx = (px d2 - px d1) / dst;
                ny = (py d2 - py d1) / dst;
                (d1a, d2a) = elastic_collision nx ny d1 d2;
                total_coins_d1 = coin_count d1a;
                total_coins_d2 = coin_count d2a;
                (d1b, d2b, rng1) = zero_coin_case d1a d2a rng;
                (d1c, d2c, rng2) =
                  standard_exchange MAX_COINS_PER_DISK_8 total_coins_d1 total_coins_d2
                    d1b d2b rng1;
                (d1d, d2d) = overlap_fix nx ny dst d1c d2c
            in (d1d, d2d, rng2, True))
         else (d1, d2, rng, False))"

text \<open>\<^verbatim>\<open>handle_disk_collision\<close> of src/unnamed/part\_000 (lines 79--135).\<close>

definition handle_disk_collision_basic ::
    "Disk \<Rightarrow> Disk \<Rightarrow> mt19937 \<Rightarrow> Disk \<times> Disk \<times> mt19937 \<times> bool" where
  "handle_disk_collision_basic d1 d2 rng =
     (let dst = distance d1 d2
      in if dst < of_int_f (radius d1 + radius d2) then
           (let nx = (px d2 - px d1) / dst;
                ny = (py d2 - py d1) / dst;
                (d1a, d2a) = elastic_collision nx ny d1 d2;
                (d1b, d2b, rng') =
                  standard_exchange MAX_COINS_PER_DISK_8 (coin_count d1a) (coin_count d2a)
                    d1a d2a rng;
                (d1c, d2c) = overlap_fix nx ny dst d1b d2b
            in (d1c, d2c, rng', True))
         else (d1, d2, rng, False))"

section \<open>The main loop of the second program (disk\_sim.cpp, lines 554--572, 620--655, 728--741)\<close>

text \<open>
  The second program has no speed factor and lets the disks use the whole window.  It
  calls \<^verbatim>\<open>update_plot\<close> inside the collision loop, once for every collision, and keeps
  no \<^verbatim>\<open>time_since_plot\<close>; the fields \<open>g_speedFactor\<close>, \<open>g_coinFraction\<close> and
  \<open>time_since_plot\<close> of the state are not used by it.  Its \<^verbatim>\<open>xdata\<close> and \<^verbatim>\<open>ydata\<close>
  hold \<^verbatim>\<open>double\<close>s.  Drawing the figure is left out.
\<close>

definition update_position_sdl :: "Disk \<Rightarrow> float \<Rightarrow> Disk" where
  "update_position_sdl disk dt =
     (let disk1 = disk\<lparr>px := px disk + vx disk * dt, py := py disk + vy disk * dt\<rparr>;
          disk2 = (if px disk1 - of_int_f (radius disk1) < Fin 0
                   then disk1\<lparr>px := of_int_f (radius disk1), vx := - vx disk1\<rparr>
                   else if px disk1 + of_int_f (radius disk1) > of_int_f WIDTH
                   then disk1\<lparr>px := of_int_f (WIDTH - radius disk1), vx := - vx disk1\<rparr>
                   else disk1)
      in if py disk2 - of_int_f (radius disk2) < Fin 0
         then disk2\<lparr>py := of_int_f (radius disk2), vy := - vy disk2\<rparr>
         else if py disk2 + of_int_f (radius disk2) > of_int_f HEIGHT
         then disk2\<lparr>py := of_int_f (HEIGHT - radius disk2), vy := - vy disk2\<rparr>
         else disk2)"

definition update_plot_sdl :: "Sim \<Rightarrow> error + Sim" where
  "update_plot_sdl s =
     (case count_coins (the_disks s) (replicate 9 0) of
        Inl e \<Rightarrow> Inl e
      | Inr counts \<Rightarrow>
          (let cumulative = map (\<lambda>i. cumulative_counts s ! i + counts ! i) [0..<9];
               fraction = (\<lambda>i. ddiv (of_int_d (cumulative ! i))
                                     (of_int_d (int DISK_COUNT_6 * collision_count s)))
           in Inr (s\<lparr>cumulative_counts := cumulative,
                     xdata := map (\<lambda>i. xdata s ! i @ [of_int_d (collision_count s)]) [0..<9],
                     ydata := map (\<lambda>i. ydata s ! i @ [fraction i]) [0..<9]\<rparr>)))"

definition collide_pair_sdl :: "nat \<times> nat \<Rightarrow> error + Sim \<Rightarrow> error + Sim" where
  "collide_pair_sdl ij st =
     (case st of
        Inl e \<Rightarrow> Inl e
      | Inr s \<Rightarrow>
          (let (i, j) = ij;
               (d1, d2, rng', collided) =
                 handle_disk_collision_sdl (the_disks s ! i) (the_disks s ! j) (the_rng s);
               s1 = s\<lparr>the_disks := (the_disks s)[i := d1, j := d2], the_rng := rng'\<rparr>
           in if collided
              then update_plot_sdl (s1\<lparr>collision_count := collision_count s1 + 1\<rparr>)
              else Inr s1))"

definition tick_sdl :: "float \<Rightarrow> Sim \<Rightarrow> error + Sim" where
  "tick_sdl dt s =
     fold collide_pair_sdl (index_pairs DISK_COUNT_6)
       (Inr (s\<lparr>the_disks := map (\<lambda>d. update_position_sdl d dt) (the_disks s)\<rparr>))"
section \<open>Rounding\<close>

lemma pow2_powr: "pow2 e = 2 powr (of_int e)"
  by (simp add: pow2_def powr_real_of_int divide_inverse)

lemma pow2_pos: "0 < pow2 e"
  by (simp add: pow2_powr)

lemma pow2_add: "pow2 (a + b) = pow2 a * pow2 b"
  by (simp add: pow2_powr powr_add)

lemma pow2_mono: "a \<le> b \<Longrightarrow> pow2 a \<le> pow2 b"
  by (simp add: pow2_powr)

lemma pow2_less_cancel: "pow2 a < pow2 b \<Longrightarrow> a < b"
  by (simp add: pow2_powr)

lemma pow2_nat: "pow2 (int n) = 2 ^ n"
  by (simp add: pow2_def)

lemma floor_log2_eq:
  assumes "pow2 k \<le> \<bar>x\<bar>" and "\<bar>x\<bar> < pow2 (k + 1)"
  shows "\<lfloor>log 2 \<bar>x\<bar>\<rfloor> = k"
proof -
  have "0 < \<bar>x\<bar>" using assms(1) pow2_pos [of k] by linarith
  then show ?thesis
    using assms by (subst floor_log_eq_powr_iff) (simp_all add: pow2_powr)
qed

lemma floor_log2_bounds:
  assumes "x \<noteq> 0"
  shows "pow2 \<lfloor>log 2 \<bar>x\<bar>\<rfloor> \<le> \<bar>x\<bar> \<and> \<bar>x\<bar> < pow2 (\<lfloor>log 2 \<bar>x\<bar>\<rfloor> + 1)"
proof -
  have "0 < \<bar>x\<bar>" using assms by simp
  from floor_log_eq_powr_iff [OF this, of 2 "\<lfloor>log 2 \<bar>x\<bar>\<rfloor>"] show ?thesis
    by (simp add: pow2_powr)
qed

lemma round_ieee_at:
  assumes "pow2 k \<le> \<bar>x\<bar>" and "\<bar>x\<bar> < pow2 (k + 1)" and "emin \<le> k"
  shows "round_ieee p emin emax x =
     (let r = of_int (rne (x / pow2 (k - p + 1))) * pow2 (k - p + 1)
      in if pow2 emax \<le> r then PInf else if r \<le> - pow2 emax then NInf else Fin r)"
proof -
  have "x \<noteq> 0" using assms(1) pow2_pos [of k] by auto
  then show ?thesis
    using assms(3) by (simp add: round_ieee_def floor_log2_eq [OF assms(1,2)] Let_def max_def)
qed

lemma rne_of_int: "rne (of_int n) = n"
  by (simp add: rne_def)

lemma rne_minus: "rne (- x) = - rne x"
proof -
  define f where "f = \<lfloor>x\<rfloor>"
  define d where "d = x - of_int f"
  have x: "x = of_int f + d" by (simp add: d_def)
  have d: "0 \<le> d" "d < 1" unfolding d_def f_def by linarith+
  show ?thesis
  proof (cases "d = 0")
    case True
    then have "x = of_int f" using x by simp
    then show ?thesis by (simp add: rne_of_int flip: of_int_minus)
  next
    case False
    have fl: "\<lfloor>- x\<rfloor> = - f - 1"
      using d False x by (intro floor_unique) simp_all
    have fx: "\<lfloor>x\<rfloor> = f" by (simp add: f_def)
    have e: "even (- f - 1) \<longleftrightarrow> odd f" by simp
    show ?thesis
      unfolding rne_def fl fx Let_def e using d False x by auto
  qed
qed

lemma rne_error: "\<bar>of_int (rne y) - y\<bar> \<le> 1 / 2"
  unfolding rne_def Let_def by (auto simp: abs_le_iff)

lemma rne_ge: "of_int m \<le> y \<Longrightarrow> m \<le> rne y"
proof -
  assume "of_int m \<le> y"
  then have "m \<le> \<lfloor>y\<rfloor>" by (simp add: le_floor_iff)
  moreover have "\<lfloor>y\<rfloor> \<le> rne y" by (simp add: rne_def Let_def)
  ultimately show ?thesis by simp
qed

lemma rne_abs_ge: "of_int m \<le> \<bar>y\<bar> \<Longrightarrow> m \<le> \<bar>rne y\<bar>"
proof (cases "0 \<le> y")
  case True
  assume "of_int m \<le> \<bar>y\<bar>"
  with True have "m \<le> rne y" by (simp add: rne_ge)
  then show ?thesis by simp
next
  case False
  assume "of_int m \<le> \<bar>y\<bar>"
  with False have "m \<le> rne (- y)" by (simp add: rne_ge)
  then show ?thesis by (simp add: rne_minus)
qed

lemma round_ieee_minus:
  "round_ieee p emin emax (- x) = - round_ieee p emin emax x"
  using pow2_pos [of emax] by (auto simp: round_ieee_def Let_def rne_minus)

lemma round32_minus: "round32 (- x) = - round32 x"
  by (simp add: round32_def round_ieee_minus)

lemma round_ieee_exact:
  assumes x: "x = of_int m * pow2 e" and m: "\<bar>m\<bar> < 2 ^ nat p"
    and lo: "emin - p + 1 \<le> e" and hi: "e + p \<le> emax" and p: "0 < p"
  shows "round_ieee p emin emax x = Fin x"
proof (cases "x = 0")
  case True
  then show ?thesis by (simp add: round_ieee_def)
next
  case False
  define k where "k = \<lfloor>log 2 \<bar>x\<bar>\<rfloor>"
  define E where "E = max k emin"
  note kb = floor_log2_bounds [OF False, folded k_def]
  have "real_of_int \<bar>m\<bar> < 2 ^ nat p"
    using m by (metis of_int_less_iff of_int_numeral of_int_power)
  then have "\<bar>x\<bar> < 2 ^ nat p * pow2 e"
    unfolding x abs_mult using pow2_pos [of e] by simp
  also have "\<dots> = pow2 (p + e)"
  proof -
    have "2 ^ nat p = pow2 p" using p by (simp add: pow2_def)
    then show ?thesis by (simp add: pow2_add)
  qed
  finally have xlt: "\<bar>x\<bar> < pow2 (p + e)" .
  with kb have "pow2 k < pow2 (p + e)" by linarith
  then have "k < p + e" by (rule pow2_less_cancel)
  then have j: "0 \<le> e - (E - p + 1)"
    using lo by (simp add: E_def)
  define j where "j = nat (e - (E - p + 1))"
  have "pow2 e = pow2 (int j) * pow2 (E - p + 1)"
    using j by (simp add: j_def flip: pow2_add)
  then have "x / pow2 (E - p + 1) = of_int m * pow2 (int j)"
    using pow2_pos [of "E - p + 1"] by (simp add: x)
  also have "\<dots> = of_int (m * 2 ^ j)"
    by (simp add: pow2_nat)
  finally have q: "x / pow2 (E - p + 1) = of_int (m * 2 ^ j)" .
  have r: "of_int (rne (x / pow2 (E - p + 1))) * pow2 (E - p + 1) = x"
    unfolding q rne_of_int using q pow2_pos [of "E - p + 1"]
    by (metis nonzero_eq_divide_eq less_numeral_extra(3))
  have "pow2 (p + e) \<le> pow2 emax"
    using hi by (intro pow2_mono) simp
  with xlt have "\<bar>x\<bar> < pow2 emax" by linarith
  then have "\<not> pow2 emax \<le> x" "\<not> x \<le> - pow2 emax" by linarith+
  then show ?thesis
    using False by (simp add: round_ieee_def Let_def r flip: k_def E_def)
qed

lemma round32_of_int:
  assumes "\<bar>n\<bar> \<le> 16777216"
  shows "round32 (of_int n) = Fin (of_int n)"
proof (cases "\<bar>n\<bar> = 16777216")
  case False
  with assms have "\<bar>n\<bar> < 2 ^ nat 24" by simp
  then show ?thesis
    unfolding round32_def
    by (intro round_ieee_exact [where m = n and e = 0]) (simp_all add: pow2_def)
next
  case True
  then have "n = 16777216 \<or> n = - 16777216" by linarith
  then have "real_of_int n = of_int (n div 2) * pow2 1" "\<bar>n div 2\<bar> < 2 ^ nat 24"
    by (auto simp: pow2_def)
  then show ?thesis
    unfolding round32_def
    by (intro round_ieee_exact [where m = "n div 2" and e = 1]) simp_all
qed

lemma round32_numeral:
  "numeral w \<le> (16777216 :: int) \<Longrightarrow> round32 (numeral w) = Fin (numeral w)"
  using round32_of_int [of "numeral w"] by simp

lemma round32_neg_numeral:
  "numeral w \<le> (16777216 :: int) \<Longrightarrow> round32 (- numeral w) = Fin (- numeral w)"
  using round32_of_int [of "- numeral w"] by simp

lemma round32_0: "round32 0 = Fin 0"
  by (simp add: round32_def round_ieee_def)

lemma round32_1: "round32 1 = Fin 1"
  using round32_of_int [of 1] by simp

lemma round32_error:
  assumes "round32 x = Fin r"
  shows "\<bar>r - x\<bar> \<le> \<bar>r\<bar> / 2 ^ 24 + 1 / 2 ^ 150"
proof (cases "x = 0")
  case True
  with assms show ?thesis by (simp add: round32_0)
next
  case False
  define k where "k = \<lfloor>log 2 \<bar>x\<bar>\<rfloor>"
  define E where "E = max k (- 126)"
  define ulp where "ulp = pow2 (E - 23)"
  define y where "y = x / ulp"
  have ulp: "0 < ulp" unfolding ulp_def by (rule pow2_pos)
  have r: "r = of_int (rne y) * ulp"
    using assms False
    by (simp add: round32_def round_ieee_def Let_def y_def ulp_def E_def k_def
        split: if_splits)
  have xy: "x = y * ulp" using ulp by (simp add: y_def)
  have "r - x = (of_int (rne y) - y) * ulp"
    unfolding r y_def using ulp by (simp add: left_diff_distrib)
  then have "\<bar>r - x\<bar> = \<bar>of_int (rne y) - y\<bar> * ulp"
    using ulp by (simp add: abs_mult)
  also have "\<dots> \<le> (1 / 2) * ulp"
    using rne_error [of y] ulp by (intro mult_right_mono) simp_all
  finally have err: "\<bar>r - x\<bar> \<le> ulp / 2" by simp
  show ?thesis
  proof (cases "- 126 \<le> k")
    case True
    then have E: "E = k" by (simp add: E_def)
    note kb = floor_log2_bounds [OF False, folded k_def]
    have "pow2 k = 2 ^ 23 * ulp"
      unfolding ulp_def E using pow2_add [of 23 "k - 23"] by (simp add: pow2_def)
    with kb have "2 ^ 23 * ulp \<le> \<bar>x\<bar>" by simp
    then have "real_of_int (2 ^ 23) \<le> \<bar>y\<bar>"
      using ulp by (simp add: y_def pos_le_divide_eq)
    then have "2 ^ 23 \<le> \<bar>rne y\<bar>" by (rule rne_abs_ge)
    then have "real_of_int (2 ^ 23) \<le> real_of_int \<bar>rne y\<bar>"
      by (rule iffD2 [OF of_int_le_iff])
    then have "2 ^ 23 * ulp \<le> \<bar>r\<bar>"
      unfolding r abs_mult using ulp by simp
    then have "ulp / 2 \<le> \<bar>r\<bar> / 2 ^ 24" by simp
    with err have "\<bar>r - x\<bar> \<le> \<bar>r\<bar> / 2 ^ 24" by (rule order_trans)
    then show ?thesis by (intro add_increasing2) simp_all
  next
    case False
    then have "E = - 126" by (simp add: E_def)
    then have "ulp / 2 = 1 / 2 ^ 150" by (simp add: ulp_def pow2_def)
    with err have "\<bar>r - x\<bar> \<le> 1 / 2 ^ 150" by (simp only:)
    then show ?thesis by (intro add_increasing) simp_all
  qed
qed


lemma rne_abs_le:
  assumes "\<bar>y\<bar> \<le> of_int m"
  shows "\<bar>rne y\<bar> \<le> m"
proof -
  have e: "real_of_int (rne y) - y \<le> 1 / 2" "y - real_of_int (rne y) \<le> 1 / 2"
    using rne_error [of y] by linarith+
  have b: "y \<le> real_of_int m" "- real_of_int m \<le> y"
    using assms by linarith+
  have "real_of_int (rne y) < real_of_int m + 1" "- real_of_int m - 1 < real_of_int (rne y)"
    using e b by linarith+
  then have "real_of_int (rne y) < of_int (m + 1)" "of_int (- m - 1) < real_of_int (rne y)"
    by simp_all
  then have "rne y < m + 1" "- m - 1 < rne y"
    by (simp_all only: of_int_less_iff)
  then show ?thesis by simp
qed

text \<open>
  How a rounding is computed at a number whose binary exponent \<open>k\<close> is known; for a
  numeral \<open>x\<close> and a numeral \<open>k\<close> the premises and the right-hand side evaluate.
\<close>

lemma round_ieee_at_fin:
  assumes lo: "pow2 k \<le> \<bar>x\<bar>" and hi: "\<bar>x\<bar> < pow2 (k + 1)"
    and "emin \<le> k" and "k + 1 < emax" and "0 < p"
  shows "round_ieee p emin emax x =
         Fin (of_int (rne (x / pow2 (k - p + 1))) * pow2 (k - p + 1))"
proof -
  define ulp where "ulp = pow2 (k - p + 1)"
  define r where "r = real_of_int (rne (x / ulp)) * ulp"
  have ulp: "0 < ulp" unfolding ulp_def by (rule pow2_pos)
  have "pow2 (k + 1) = pow2 p * ulp"
    unfolding ulp_def by (simp flip: pow2_add)
  moreover have "pow2 p = 2 ^ nat p" using assms(5) by (simp add: pow2_def)
  ultimately have "\<bar>x\<bar> < 2 ^ nat p * ulp" using hi by simp
  then have "\<bar>x / ulp\<bar> \<le> real_of_int (2 ^ nat p)"
    using ulp by (simp add: pos_divide_le_eq)
  then have "\<bar>rne (x / ulp)\<bar> \<le> 2 ^ nat p" by (rule rne_abs_le)
  then have "real_of_int \<bar>rne (x / ulp)\<bar> \<le> real_of_int (2 ^ nat p)"
    by (rule iffD2 [OF of_int_le_iff])
  then have "\<bar>r\<bar> \<le> 2 ^ nat p * ulp"
    unfolding r_def abs_mult using ulp by simp
  also have "\<dots> = pow2 (k + 1)"
    using \<open>pow2 (k + 1) = pow2 p * ulp\<close> \<open>pow2 p = 2 ^ nat p\<close> by simp
  also have "\<dots> < pow2 emax"
    using assms(4) by (simp add: pow2_powr)
  finally have "\<not> pow2 emax \<le> r" "\<not> r \<le> - pow2 emax" by linarith+
  then show ?thesis
    by (simp add: round_ieee_at [OF lo hi assms(3)] Let_def flip: ulp_def r_def)
qed

lemma round32_at:
  "pow2 k \<le> \<bar>x\<bar> \<Longrightarrow> \<bar>x\<bar> < pow2 (k + 1) \<Longrightarrow> - 126 \<le> k \<Longrightarrow> k < 127 \<Longrightarrow>
     round32 x = Fin (of_int (rne (x / pow2 (k - 23))) * pow2 (k - 23))"
  unfolding round32_def
  using round_ieee_at_fin [where p = 24 and emin = "- 126" and emax = 128 and k = k and x = x]
  by simp

lemma round64_at:
  "pow2 k \<le> \<bar>x\<bar> \<Longrightarrow> \<bar>x\<bar> < pow2 (k + 1) \<Longrightarrow> - 1022 \<le> k \<Longrightarrow> k < 1023 \<Longrightarrow>
     round64 x = Fin (of_int (rne (x / pow2 (k - 52))) * pow2 (k - 52))"
  unfolding round64_def
  using round_ieee_at_fin [where p = 53 and emin = "- 1022" and emax = 1024 and k = k and x = x]
  by simp

lemma round64_of_int:
  assumes "\<bar>n\<bar> < 9007199254740992"
  shows "round64 (of_int n) = Fin (of_int n)"
  unfolding round64_def using assms
  by (intro round_ieee_exact [where m = n and e = 0]) (simp_all add: pow2_def)

lemma round64_numeral:
  "numeral w < (9007199254740992 :: int) \<Longrightarrow> round64 (numeral w) = Fin (numeral w)"
  using round64_of_int [of "numeral w"] by simp

lemma round64_0: "round64 0 = Fin 0"
  by (simp add: round64_def round_ieee_def)

lemma round64_1: "round64 1 = Fin 1"
  using round64_of_int [of 1] by simp

lemma round32_half: "round32 (1 / 2) = Fin (1 / 2)"
  unfolding round32_def
  by (intro round_ieee_exact [where m = 1 and e = "- 1"]) (simp_all add: pow2_def)

lemma round32_2_31: "round32 2147483648 = Fin 2147483648"
  unfolding round32_def
  by (intro round_ieee_exact [where m = 1 and e = 31]) (simp_all add: pow2_def)

lemma rne_between: "of_int m - 1 / 2 < y \<Longrightarrow> y < of_int m + 1 / 2 \<Longrightarrow> rne y = m"
proof -
  assume a: "of_int m - 1 / 2 < y" "y < of_int m + 1 / 2"
  show ?thesis
  proof (cases "of_int m \<le> y")
    case True
    with a have "\<lfloor>y\<rfloor> = m" by (intro floor_unique) simp_all
    with a show ?thesis by (simp add: rne_def)
  next
    case False
    with a have "\<lfloor>y\<rfloor> = m - 1" by (intro floor_unique) simp_all
    with a show ?thesis by (simp add: rne_def)
  qed
qed

text \<open>The rounded square root of \<open>s\<close>, from bounds on \<open>s\<close> by squares.\<close>

lemma round32_sqrt_at:
  fixes k m :: int
  defines "ulp \<equiv> pow2 (k - 23)"
  assumes k: "- 126 \<le> k" "k < 127"
    and binade: "pow2 k * pow2 k \<le> s" "s < pow2 (k + 1) * pow2 (k + 1)"
    and lo: "((of_int m - 1 / 2) * ulp) * ((of_int m - 1 / 2) * ulp) < s"
    and hi: "s < ((of_int m + 1 / 2) * ulp) * ((of_int m + 1 / 2) * ulp)"
    and m: "0 < m"
  shows "round32 (sqrt s) = Fin (of_int m * ulp)"
proof -
  have ulp: "0 < ulp" unfolding ulp_def by (rule pow2_pos)
  have mh: "0 \<le> (real_of_int m + 1 / 2) * ulp"
    using m ulp by simp
  have "pow2 k \<le> sqrt s"
    using binade(1) by (intro real_le_rsqrt) (simp add: power2_eq_square)
  moreover have "sqrt s < pow2 (k + 1)"
    using binade(2) pow2_pos [of "k + 1"]
    by (intro real_less_lsqrt) (simp_all add: power2_eq_square)
  moreover have "0 \<le> sqrt s"
    using pow2_pos [of k] \<open>pow2 k \<le> sqrt s\<close> by linarith
  ultimately have r: "round32 (sqrt s) = Fin (of_int (rne (sqrt s / ulp)) * ulp)"
    unfolding ulp_def using k by (intro round32_at) simp_all
  have "(of_int m - 1 / 2) * ulp < sqrt s"
    using lo by (intro real_less_rsqrt) (simp add: power2_eq_square)
  then have a: "of_int m - 1 / 2 < sqrt s / ulp"
    using ulp by (simp add: pos_less_divide_eq)
  have "sqrt s < (of_int m + 1 / 2) * ulp"
    using hi mh by (intro real_less_lsqrt) (simp_all add: power2_eq_square)
  then have b: "sqrt s / ulp < of_int m + 1 / 2"
    using ulp by (simp add: pos_divide_less_eq)
  from rne_between [OF a b] r show ?thesis by simp
qed

section \<open>Negation\<close>

lemma float_minus_minus: "- (- a) = (a :: float)"
  by (cases a) simp_all

lemma float_add_commute: "a + b = b + (a :: float)"
  by (cases a; cases b) (simp_all add: add.commute)

lemma float_minus_add: "- (a + b) = - a + - (b :: float)"
  by (cases a; cases b) (simp_all flip: round32_minus)

lemma float_diff_swap: "a - b = - (b - (a :: float))"
  by (simp add: minus_float.simps float_minus_add float_minus_minus float_add_commute [of a])

lemma float_mult_minus_left: "- a * b = - (a * (b :: float))"
  by (cases a; cases b) (simp_all flip: round32_minus)

section \<open>The uniform redistribution of coins\<close>

lemma uniform_redistribution_shape:
  assumes "0 \<le> coin_count d1 + coin_count d2 + 1"
  shows "\<exists>q1' q2' rng'. uniform_redistribution maxc d1 d2 rng =
      Inr (d1\<lparr>coin_count := q1'\<rparr>, d2\<lparr>coin_count := q2'\<rparr>, rng')"
proof (cases "possible_redistributions maxc (coin_count d1 + coin_count d2) = []")
  case True
  with assms have "uniform_redistribution maxc d1 d2 rng =
      Inr (d1\<lparr>coin_count := coin_count d1\<rparr>, d2\<lparr>coin_count := coin_count d2\<rparr>, rng)"
    by (simp add: uniform_redistribution_def)
  then show ?thesis by blast
next
  case False
  with assms show ?thesis
    by (auto simp: uniform_redistribution_def Let_def split: prod.splits)
qed

lemma possible_redistributions_sum:
  "p \<in> set (possible_redistributions maxc t) \<Longrightarrow> fst p + snd p = t"
  by (auto simp: possible_redistributions_def)

lemma possible_redistributions_range:
  "p \<in> set (possible_redistributions maxc t) \<Longrightarrow>
     0 \<le> fst p \<and> fst p \<le> maxc \<and> snd p \<le> maxc"
  by (auto simp: possible_redistributions_def)

lemma uniform_int_distribution_range:
  "0 < n \<Longrightarrow> fst (uniform_int_distribution 0 (n - 1) rng) < n"
  by (simp add: uniform_int_distribution_def)

lemma uniform_redistribution_pick:
  assumes "uniform_redistribution maxc d1 d2 rng = Inr (d1', d2', rng')"
  shows "coin_count d1' = coin_count d1 \<and> coin_count d2' = coin_count d2 \<or>
         (coin_count d1', coin_count d2') \<in>
           set (possible_redistributions maxc (coin_count d1 + coin_count d2))"
proof (cases "possible_redistributions maxc (coin_count d1 + coin_count d2) = []")
  case True
  with assms show ?thesis
    by (auto simp: uniform_redistribution_def Let_def split: if_splits)
next
  case False
  define ps where "ps = possible_redistributions maxc (coin_count d1 + coin_count d2)"
  define idx where "idx = fst (uniform_int_distribution 0 (length ps - 1) rng)"
  have "idx < length ps"
    unfolding idx_def using False uniform_int_distribution_range [of "length ps" rng]
    by (simp add: ps_def)
  then have "ps ! idx \<in> set ps" by simp
  moreover have "coin_count d1' = fst (ps ! idx)" "coin_count d2' = snd (ps ! idx)"
    using assms False
    by (auto simp: uniform_redistribution_def Let_def ps_def idx_def
        split: prod.splits if_splits)
  ultimately show ?thesis
    by (simp add: ps_def)
qed

lemma uniform_redistribution_coins:
  assumes "uniform_redistribution maxc d1 d2 rng = Inr (d1', d2', rng')"
    and "0 \<le> coin_count d1" "coin_count d1 \<le> maxc" "0 \<le> coin_count d2" "coin_count d2 \<le> maxc"
  shows "coin_count d1' + coin_count d2' = coin_count d1 + coin_count d2 \<and>
         0 \<le> coin_count d1' \<and> coin_count d1' \<le> maxc \<and>
         0 \<le> coin_count d2' \<and> coin_count d2' \<le> maxc"
  using uniform_redistribution_pick [OF assms(1)] assms(2-)
    possible_redistributions_sum [of "(coin_count d1', coin_count d2')" maxc "coin_count d1 + coin_count d2"]
    possible_redistributions_range [of "(coin_count d1', coin_count d2')" maxc "coin_count d1 + coin_count d2"]
  by (auto simp: possible_redistributions_def)

lemma uniform_redistribution_returns:
  "0 \<le> coin_count d1 + coin_count d2 + 1 \<Longrightarrow>
     \<exists>d1' d2' rng'. uniform_redistribution maxc d1 d2 rng = Inr (d1', d2', rng')"
  using uniform_redistribution_shape by blast

lemma elastic_collision_frame:
  assumes "elastic_collision nx ny d1 d2 = (d1', d2')"
  shows "coin_count d1' = coin_count d1 \<and> coin_count d2' = coin_count d2"
  using assms by (auto simp: elastic_collision_def Let_def)

lemma overlap_fix_frame:
  assumes "overlap_fix nx ny dst d1 d2 = (d1', d2')"
  shows "coin_count d1' = coin_count d1 \<and> coin_count d2' = coin_count d2"
  using assms by (auto simp: overlap_fix_def Let_def split: if_splits)

lemma handle_disk_collision_stages:
  assumes "distance d1 d2 < of_int_f (radius d1 + radius d2)"
    and "0 \<le> coin_count d1 + coin_count d2 + 1"
  shows "\<exists>a1 a2 b1 b2 c1 c2 rng'.
           uniform_redistribution MAX_COINS_PER_DISK a1 a2 rng = Inr (b1, b2, rng') \<and>
           coin_count a1 = coin_count d1 \<and> coin_count a2 = coin_count d2 \<and>
           coin_count c1 = coin_count b1 \<and> coin_count c2 = coin_count b2 \<and>
           handle_disk_collision d1 d2 rng = Inr (c1, c2, rng', True)"
proof -
  let ?dst = "distance d1 d2"
  let ?nx = "(px d2 - px d1) / ?dst" and ?ny = "(py d2 - py d1) / ?dst"
  obtain a1 a2 where a: "elastic_collision ?nx ?ny d1 d2 = (a1, a2)"
    by (cases "elastic_collision ?nx ?ny d1 d2")
  note ca = elastic_collision_frame [OF a]
  with assms(2) have "0 \<le> coin_count a1 + coin_count a2 + 1" by simp
  from uniform_redistribution_returns [OF this]
  obtain b1 b2 rng' where b: "uniform_redistribution MAX_COINS_PER_DISK a1 a2 rng = Inr (b1, b2, rng')"
    by blast
  obtain c1 c2 where c: "overlap_fix ?nx ?ny ?dst b1 b2 = (c1, c2)"
    by (cases "overlap_fix ?nx ?ny ?dst b1 b2")
  have "handle_disk_collision d1 d2 rng = Inr (c1, c2, rng', True)"
    using assms(1) a b c by (simp add: handle_disk_collision_def Let_def)
  with a b c ca overlap_fix_frame [OF c] show ?thesis
    by blast
qed

lemma sqrt_900: "sqrt 900 = 30"
  using real_sqrt_abs2 [of 30] by simp


lemma sqrt_2500: "sqrt 2500 = 50"
  using real_sqrt_abs2 [of 50] by simp

text \<open>
  Claim C2.  Under the uniform redistribution of the first program, every collision of
  two disks whose coin counts lie between 0 and \<^verbatim>\<open>MAX_COINS_PER_DISK\<close> leaves the sum of
  the two counts as it was, and both new counts lie in that range again: nothing is
  clamped.
\<close>

theorem uniform_redistribution_conserves_pair_total:
  assumes "distance d1 d2 < of_int_f (radius d1 + radius d2)"
    and "0 \<le> coin_count d1" and "coin_count d1 \<le> MAX_COINS_PER_DISK"
    and "0 \<le> coin_count d2" and "coin_count d2 \<le> MAX_COINS_PER_DISK"
  shows "\<exists>e1 e2 rng'.
           handle_disk_collision d1 d2 rng = Inr (e1, e2, rng', True) \<and>
           coin_count e1 + coin_count e2 = coin_count d1 + coin_count d2 \<and>
           0 \<le> coin_count e1 \<and> coin_count e1 \<le> MAX_COINS_PER_DISK \<and>
           0 \<le> coin_count e2 \<and> coin_count e2 \<le> MAX_COINS_PER_DISK"
proof -
  have "0 \<le> coin_count d1 + coin_count d2 + 1"
    using assms(2,4) by simp
  from handle_disk_collision_stages [OF assms(1) this]
  obtain a1 a2 b1 b2 c1 c2 rng' where
    u: "uniform_redistribution MAX_COINS_PER_DISK a1 a2 rng = Inr (b1, b2, rng')" and
    a: "coin_count a1 = coin_count d1" "coin_count a2 = coin_count d2" and
    c: "coin_count c1 = coin_count b1" "coin_count c2 = coin_count b2" and
    h: "handle_disk_collision d1 d2 rng = Inr (c1, c2, rng', True)"
    by blast
  from uniform_redistribution_coins [OF u] assms(2-) a c h show ?thesis
    by simp
qed

theorem uniform_redistribution_conserves_pair_total_witness:
  "\<exists>e1 e2 rng'.
     handle_disk_collision
       \<lparr>px = Fin 100, py = Fin 100, vx = Fin 3, vy = Fin 0, radius = 20, coin_count = 25\<rparr>
       \<lparr>px = Fin 118, py = Fin 124, vx = Fin 0, vy = Fin 0, radius = 20, coin_count = 0\<rparr>
       (sconst 7) = Inr (e1, e2, rng', True) \<and>
     coin_count e1 + coin_count e2 = 25 \<and>
     0 \<le> coin_count e1 \<and> coin_count e1 \<le> MAX_COINS_PER_DISK \<and>
     0 \<le> coin_count e2 \<and> coin_count e2 \<le> MAX_COINS_PER_DISK"
  using uniform_redistribution_conserves_pair_total
    [of "\<lparr>px = Fin 100, py = Fin 100, vx = Fin 3, vy = Fin 0, radius = 20, coin_count = 25\<rparr>"
        "\<lparr>px = Fin 118, py = Fin 124, vx = Fin 0, vy = Fin 0, radius = 20, coin_count = 0\<rparr>"
        "sconst 7"]
  by (simp add: distance_def Let_def minus_float.simps round32_numeral sqrt_900 of_int_f_def
      MAX_COINS_PER_DISK_def)

section \<open>The elastic response and the overlap fix\<close>

lemma splits_of_one: "possible_redistributions 25 1 = [(0, 1), (1, 0)]"
  by code_simp

text \<open>
  What a collision makes of the velocities and the positions of two disks, in the
  operations of the program: the coin exchange touches neither.
\<close>

lemma handle_disk_collision_result:
  fixes d1 d2 :: Disk
  defines "dst \<equiv> distance d1 d2"
  defines "nx \<equiv> (px d2 - px d1) / dst" and "ny \<equiv> (py d2 - py d1) / dst"
  defines "v1n \<equiv> vx d1 * nx + vy d1 * ny" and "v2n \<equiv> vx d2 * nx + vy d2 * ny"
  defines "overlap \<equiv> of_int_f (radius d1 + radius d2) - dst"
  assumes hit: "dst < of_int_f (radius d1 + radius d2)"
    and coins: "0 \<le> coin_count d1 + coin_count d2 + 1"
  shows "\<exists>e1 e2 rng'.
    handle_disk_collision d1 d2 rng = Inr (e1, e2, rng', True) \<and>
    vx e1 = vx d1 + (v2n - v1n) * nx \<and> vy e1 = vy d1 + (v2n - v1n) * ny \<and>
    vx e2 = vx d2 + (v1n - v2n) * nx \<and> vy e2 = vy d2 + (v1n - v2n) * ny \<and>
    px e1 = (if Fin 0 < overlap then px d1 - nx * (overlap * Fin 0.5) else px d1) \<and>
    py e1 = (if Fin 0 < overlap then py d1 - ny * (overlap * Fin 0.5) else py d1) \<and>
    px e2 = (if Fin 0 < overlap then px d2 + nx * (overlap * Fin 0.5) else px d2) \<and>
    py e2 = (if Fin 0 < overlap then py d2 + ny * (overlap * Fin 0.5) else py d2) \<and>
    radius e1 = radius d1 \<and> radius e2 = radius d2"
proof -
  define a1 where "a1 = d1\<lparr>vx := vx d1 + (v2n - v1n) * nx, vy := vy d1 + (v2n - v1n) * ny\<rparr>"
  define a2 where "a2 = d2\<lparr>vx := vx d2 + (v1n - v2n) * nx, vy := vy d2 + (v1n - v2n) * ny\<rparr>"
  have el: "elastic_collision nx ny d1 d2 = (a1, a2)"
    by (simp add: elastic_collision_def Let_def a1_def a2_def v1n_def v2n_def)
  have "0 \<le> coin_count a1 + coin_count a2 + 1"
    using coins by (simp add: a1_def a2_def)
  from uniform_redistribution_shape [OF this]
  obtain q1 q2 rng' where
    un: "uniform_redistribution MAX_COINS_PER_DISK a1 a2 rng =
           Inr (a1\<lparr>coin_count := q1\<rparr>, a2\<lparr>coin_count := q2\<rparr>, rng')"
    by blast
  obtain c1 c2 where
    ov: "overlap_fix nx ny dst (a1\<lparr>coin_count := q1\<rparr>) (a2\<lparr>coin_count := q2\<rparr>) = (c1, c2)"
    by (cases "overlap_fix nx ny dst (a1\<lparr>coin_count := q1\<rparr>) (a2\<lparr>coin_count := q2\<rparr>)")
  have h: "handle_disk_collision d1 d2 rng = Inr (c1, c2, rng', True)"
    using hit el un ov
    by (simp add: handle_disk_collision_def Let_def flip: dst_def nx_def ny_def)
  have r: "radius a1 = radius d1" "radius a2 = radius d2"
    by (simp_all add: a1_def a2_def)
  have c1: "c1 = (if Fin 0 < overlap
                  then a1\<lparr>coin_count := q1, px := px d1 - nx * (overlap * Fin 0.5),
                          py := py d1 - ny * (overlap * Fin 0.5)\<rparr>
                  else a1\<lparr>coin_count := q1\<rparr>)"
    and c2: "c2 = (if Fin 0 < overlap
                  then a2\<lparr>coin_count := q2, px := px d2 + nx * (overlap * Fin 0.5),
                          py := py d2 + ny * (overlap * Fin 0.5)\<rparr>
                  else a2\<lparr>coin_count := q2\<rparr>)"
    using ov unfolding overlap_fix_def Let_def overlap_def
    by (auto simp: a1_def a2_def split: if_splits)
  show ?thesis
    apply (rule exI [of _ c1], rule exI [of _ c2], rule exI [of _ rng'])
    apply (simp add: h)
    apply (simp add: c1 c2 a1_def a2_def)
    done
qed

text \<open>
  In exact arithmetic, with a normal of length 1, the increments of the elastic response
  exchange the two velocity components along the normal and leave the components across
  it as they are.
\<close>

lemma increments_exchange_in_exact_arithmetic:
  fixes nx ny ua wa ub wb :: real
  defines "van \<equiv> ua * nx + wa * ny" and "vbn \<equiv> ub * nx + wb * ny"
  assumes unit: "nx * nx + ny * ny = 1"
  shows "(ua + (vbn - van) * nx) * nx + (wa + (vbn - van) * ny) * ny = vbn"
    and "(ub + (van - vbn) * nx) * nx + (wb + (van - vbn) * ny) * ny = van"
    and "(wa + (vbn - van) * ny) * nx - (ua + (vbn - van) * nx) * ny = wa * nx - ua * ny"
    and "(wb + (van - vbn) * ny) * nx - (ub + (van - vbn) * nx) * ny = wb * nx - ub * ny"
proof -
  have "(ua + (vbn - van) * nx) * nx + (wa + (vbn - van) * ny) * ny =
        van + (vbn - van) * (nx * nx + ny * ny)"
    by (simp add: van_def algebra_simps)
  then show "(ua + (vbn - van) * nx) * nx + (wa + (vbn - van) * ny) * ny = vbn"
    by (simp add: unit)
  have "(ub + (van - vbn) * nx) * nx + (wb + (van - vbn) * ny) * ny =
        vbn + (van - vbn) * (nx * nx + ny * ny)"
    by (simp add: vbn_def algebra_simps)
  then show "(ub + (van - vbn) * nx) * nx + (wb + (van - vbn) * ny) * ny = van"
    by (simp add: unit)
  show "(wa + (vbn - van) * ny) * nx - (ua + (vbn - van) * nx) * ny = wa * nx - ua * ny"
    by (simp add: algebra_simps)
  show "(wb + (van - vbn) * ny) * nx - (ub + (van - vbn) * nx) * ny = wb * nx - ub * ny"
    by (simp add: algebra_simps)
qed





text \<open>
  The program's own distance of the two centers after that correction is
  \<open>10485759 / 2\<^sup>1\<^sup>8\<close>, the \<^verbatim>\<open>float\<close> next below 40: the pair is found colliding again.
\<close>

lemma corrected_pair_collides_again:
  "distance
     \<lparr>px = Fin (12397869 / 131072), py = Fin (11777205 / 131072), vx = Fin 0,
       vy = Fin 0, radius = 20, coin_count = 0\<rparr>
     \<lparr>px = Fin (14865107 / 131072), py = Fin (16403275 / 131072), vx = Fin 0,
       vy = Fin 0, radius = 20, coin_count = 1\<rparr> = Fin (10485759 / 262144) \<and>
   Fin (10485759 / 262144) < of_int_f (20 + 20)"
proof -
  have s: "round32 (sqrt (6553599 / 4096)) = Fin (10485759 / 262144)"
    using round32_sqrt_at [where k = 5 and m = 10485759 and s = "6553599 / 4096"]
    by (simp add: pow2_def)
  show ?thesis
    by (simp add: distance_def Let_def of_int_f_def minus_float.simps round32_numeral s
        round32_at [where k = 4] round32_at [where k = 5] round32_at [where k = 8]
        round32_at [where k = 10] pow2_def rne_def)
qed



text \<open>
  The sum of two velocities after a \<^verbatim>\<open>float\<close> increment to one and the opposite
  increment to the other: each sum is rounded once.
\<close>

lemma opposite_increments_bound:
  assumes "Fin a + ix = Fin a'" and "Fin b + (- ix) = Fin b'"
  shows "\<bar>(a' + b') - (a + b)\<bar> \<le> (\<bar>a'\<bar> + \<bar>b'\<bar>) / 2 ^ 24 + 1 / 2 ^ 149"
proof -
  from assms(1) obtain i where ix: "ix = Fin i"
    by (cases ix) simp_all
  from assms have "round32 (a + i) = Fin a'" "round32 (b - i) = Fin b'"
    by (simp_all add: ix)
  from round32_error [OF this(1)] round32_error [OF this(2)]
  have "\<bar>a' - (a + i)\<bar> + \<bar>b' - (b - i)\<bar> \<le>
        \<bar>a'\<bar> / 2 ^ 24 + 1 / 2 ^ 150 + (\<bar>b'\<bar> / 2 ^ 24 + 1 / 2 ^ 150)"
    by (rule add_mono)
  moreover have "\<bar>(a' + b') - (a + b)\<bar> \<le> \<bar>a' - (a + i)\<bar> + \<bar>b' - (b - i)\<bar>"
    by linarith
  moreover have "\<bar>a'\<bar> / 2 ^ 24 + 1 / 2 ^ 150 + (\<bar>b'\<bar> / 2 ^ 24 + 1 / 2 ^ 150) =
                 (\<bar>a'\<bar> + \<bar>b'\<bar>) / 2 ^ 24 + (1 :: real) / 2 ^ 149"
    by (simp add: add_divide_distrib)
  ultimately show ?thesis by (simp only:)
qed

text \<open>
  Claim C10, as stated, on two disks at a distance of 30 whose centers differ by
  \<open>(18, 24)\<close>, the first moving with \<open>(3, 0)\<close> and the second with \<open>(0, 1)\<close>: the
  velocities sum to \<open>(3, 1)\<close> before the collision and to
  \<open>(25165825 / 2\<^sup>2\<^sup>3, 16777215 / 2\<^sup>2\<^sup>4)\<close> after it, and the \<^verbatim>\<open>float\<close> sum of the two
  \<open>vy\<close> is \<open>16777215 / 2\<^sup>2\<^sup>4\<close> as well, the largest \<^verbatim>\<open>float\<close> below 1.
\<close>

theorem momentum_is_rounded:
  "handle_disk_collision
     \<lparr>px = Fin 100, py = Fin 100, vx = Fin 3, vy = Fin 0, radius = 20, coin_count = 1\<rparr>
     \<lparr>px = Fin 118, py = Fin 124, vx = Fin 0, vy = Fin 1, radius = 20, coin_count = 0\<rparr>
     (sconst 0) =
   Inr (\<lparr>px = Fin 97, py = Fin 96, vx = Fin (5033165 / 2097152),
         vy = Fin (- (13421773 / 16777216)), radius = 20, coin_count = 0\<rparr>,
        \<lparr>px = Fin 121, py = Fin 128, vx = Fin (5033165 / 8388608),
         vy = Fin (7549747 / 4194304), radius = 20, coin_count = 1\<rparr>,
        sconst 0, True) \<and>
   5033165 / 2097152 + 5033165 / 8388608 \<noteq> (3 + 0 :: real) \<and>
   - (13421773 / 16777216) + 7549747 / 4194304 \<noteq> (0 + 1 :: real) \<and>
   Fin (- (13421773 / 16777216)) + Fin (7549747 / 4194304) = Fin (16777215 / 16777216)"
  by (simp add: handle_disk_collision_def distance_def Let_def elastic_collision_def
      uniform_redistribution_def splits_of_one uniform_int_distribution_def overlap_fix_def
      MAX_COINS_PER_DISK_def of_int_f_def sqrt_900 minus_float.simps divide_float.simps
      round32_numeral round32_0
      round32_at [where k = "- 1"] round32_at [where k = 0] round32_at [where k = 1]
      round32_at [where k = 2] pow2_def rne_def)

text \<open>
  Claim C10, amended.  Whenever two disks collide, the elastic response adds an increment
  to each component of the velocity of the first disk and the exact negative of that
  increment to the same component of the velocity of the second.  The sum of the two
  velocities is conserved up to the rounding of these two additions: when the velocities
  are finite, each component of the sum changes by at most
  \<open>(\<bar>v\<^sub>1'\<bar> + \<bar>v\<^sub>2'\<bar>) / 2\<^sup>2\<^sup>4 + 1 / 2\<^sup>1\<^sup>4\<^sup>9\<close>, for the new components \<open>v\<^sub>1'\<close> and
  \<open>v\<^sub>2'\<close>.
\<close>

theorem collision_changes_velocities_oppositely:
  assumes "distance d1 d2 < of_int_f (radius d1 + radius d2)"
    and "0 \<le> coin_count d1" and "0 \<le> coin_count d2"
  shows "\<exists>e1 e2 rng' ix iy.
    handle_disk_collision d1 d2 rng = Inr (e1, e2, rng', True) \<and>
    vx e1 = vx d1 + ix \<and> vx e2 = vx d2 + (- ix) \<and>
    vy e1 = vy d1 + iy \<and> vy e2 = vy d2 + (- iy) \<and>
    (\<forall>a b a' b'. vx d1 = Fin a \<and> vx d2 = Fin b \<and> vx e1 = Fin a' \<and> vx e2 = Fin b' \<longrightarrow>
       \<bar>(a' + b') - (a + b)\<bar> \<le> (\<bar>a'\<bar> + \<bar>b'\<bar>) / 2 ^ 24 + 1 / 2 ^ 149) \<and>
    (\<forall>a b a' b'. vy d1 = Fin a \<and> vy d2 = Fin b \<and> vy e1 = Fin a' \<and> vy e2 = Fin b' \<longrightarrow>
       \<bar>(a' + b') - (a + b)\<bar> \<le> (\<bar>a'\<bar> + \<bar>b'\<bar>) / 2 ^ 24 + 1 / 2 ^ 149)"
proof -
  define nx where "nx = (px d2 - px d1) / distance d1 d2"
  define ny where "ny = (py d2 - py d1) / distance d1 d2"
  define v1n where "v1n = vx d1 * nx + vy d1 * ny"
  define v2n where "v2n = vx d2 * nx + vy d2 * ny"
  define ix where "ix = (v2n - v1n) * nx"
  define iy where "iy = (v2n - v1n) * ny"
  have opp: "(v1n - v2n) * nx = - ix" "(v1n - v2n) * ny = - iy"
    unfolding ix_def iy_def
    by (subst float_diff_swap, simp add: float_mult_minus_left)+
  have "0 \<le> coin_count d1 + coin_count d2 + 1"
    using assms(2,3) by simp
  from handle_disk_collision_result [OF assms(1) this, of rng, folded nx_def ny_def,
      folded v1n_def v2n_def, unfolded opp, folded ix_def iy_def]
  obtain e1 e2 rng' where
    h: "handle_disk_collision d1 d2 rng = Inr (e1, e2, rng', True)" and
    v: "vx e1 = vx d1 + ix" "vx e2 = vx d2 + (- ix)"
       "vy e1 = vy d1 + iy" "vy e2 = vy d2 + (- iy)"
    by blast
  have sx: "\<bar>(a' + b') - (a + b)\<bar> \<le> (\<bar>a'\<bar> + \<bar>b'\<bar>) / 2 ^ 24 + 1 / 2 ^ 149"
    if "vx d1 = Fin a \<and> vx d2 = Fin b \<and> vx e1 = Fin a' \<and> vx e2 = Fin b'" for a b a' b'
  proof -
    from that v(1,2) have "Fin a + ix = Fin a'" "Fin b + (- ix) = Fin b'" by auto
    then show ?thesis by (rule opposite_increments_bound)
  qed
  have sy: "\<bar>(a' + b') - (a + b)\<bar> \<le> (\<bar>a'\<bar> + \<bar>b'\<bar>) / 2 ^ 24 + 1 / 2 ^ 149"
    if "vy d1 = Fin a \<and> vy d2 = Fin b \<and> vy e1 = Fin a' \<and> vy e2 = Fin b'" for a b a' b'
  proof -
    from that v(3,4) have "Fin a + iy = Fin a'" "Fin b + (- iy) = Fin b'" by auto
    then show ?thesis by (rule opposite_increments_bound)
  qed
  from h v sx sy show ?thesis by blast
qed

theorem collision_changes_velocities_oppositely_witness:
  "\<exists>e1 e2 rng' ix iy.
    handle_disk_collision
      \<lparr>px = Fin 100, py = Fin 100, vx = Fin 3, vy = Fin 0, radius = 20, coin_count = 25\<rparr>
      \<lparr>px = Fin 118, py = Fin 124, vx = Fin 0, vy = Fin 1, radius = 20, coin_count = 0\<rparr>
      (sconst 7) = Inr (e1, e2, rng', True) \<and>
    vx e1 = Fin 3 + ix \<and> vx e2 = Fin 0 + (- ix) \<and>
    vy e1 = Fin 0 + iy \<and> vy e2 = Fin 1 + (- iy) \<and>
    (\<forall>a' b'. vx e1 = Fin a' \<and> vx e2 = Fin b' \<longrightarrow>
       \<bar>(a' + b') - 3\<bar> \<le> (\<bar>a'\<bar> + \<bar>b'\<bar>) / 2 ^ 24 + 1 / 2 ^ 149) \<and>
    (\<forall>a' b'. vy e1 = Fin a' \<and> vy e2 = Fin b' \<longrightarrow>
       \<bar>(a' + b') - 1\<bar> \<le> (\<bar>a'\<bar> + \<bar>b'\<bar>) / 2 ^ 24 + 1 / 2 ^ 149)"
  using collision_changes_velocities_oppositely
    [of "\<lparr>px = Fin 100, py = Fin 100, vx = Fin 3, vy = Fin 0, radius = 20, coin_count = 25\<rparr>"
        "\<lparr>px = Fin 118, py = Fin 124, vx = Fin 0, vy = Fin 1, radius = 20, coin_count = 0\<rparr>"
        "sconst 7"]
  by (simp add: distance_def Let_def of_int_f_def sqrt_900 minus_float.simps
      round32_numeral)

section \<open>Placement failure\<close>

lemma place_disks_failure:
  assumes "i < DISK_COUNT" and "fst (find_valid_position disks rng DISK_RADIUS 1000) = None"
  shows "place_disks i disks rng = Inl (PlacementFailure i)"
proof -
  obtain rng1 where "find_valid_position disks rng DISK_RADIUS 1000 = (None, rng1)"
    using assms(2) by (cases "find_valid_position disks rng DISK_RADIUS 1000") auto
  with assms(1) show ?thesis
    by (subst place_disks.simps) simp
qed

lemma loop_state_invariant:
  assumes "loop_state rng0 i disks rng"
  shows "place_disks 0 [] rng0 = place_disks i disks rng"
  using assms
proof (induction rule: loop_state.induct)
  case loop_start
  show ?case by (rule refl)
next
  case (loop_next i disks rng x y rng1 u rng2 w rng3)
  have "place_disks i disks rng =
        place_disks (i + 1)
          (disks @ [\<lparr>px = x, py = y, vx = u, vy = w, radius = DISK_RADIUS,
                     coin_count = (if i = 0 then MAX_COINS_PER_DISK else 0)\<rparr>]) rng3"
    using loop_next.hyps(2-5) by (subst place_disks.simps) (simp add: Let_def)
  with loop_next.IH show ?case by simp
qed

text \<open>
  Claim C9.  When the loop of \<^verbatim>\<open>main\<close> that creates the disks reaches disk \<open>i\<close> and
  \<^verbatim>\<open>find_valid_position\<close> uses up its 1000 attempts there, the initialisation ends with
  the placement failure for disk \<open>i\<close>: no population is returned.
\<close>

theorem placement_failure_is_reported:
  assumes "loop_state rng0 i disks rng" and "i < DISK_COUNT"
    and "fst (find_valid_position disks rng DISK_RADIUS 1000) = None"
  shows "initialize_population rng0 = Inl (PlacementFailure i)"
  unfolding initialize_population_def loop_state_invariant [OF assms(1)]
  using assms(2,3) by (rule place_disks_failure)

lemma crowded_search_fails:
  "find_valid_position
     [\<lparr>px = Fin 20, py = Fin 20, vx = Fin (- 200), vy = Fin (- 200), radius = 20,
       coin_count = 25\<rparr>]
     (sconst 0) 20 n = (None, sconst 0)"
  by (induction n)
    (simp_all add: uniform_real_distribution_def generate_canonical_def divide_float.simps
       is_valid_position_def
       of_int_f_def WIDTH_def CHART_TOP_def DISK_RADIUS_def Let_def minus_float.simps
       round32_numeral round32_neg_numeral round32_0 round32_at [where k = 0]
       round32_at [where k = 5] pow2_def rne_def)

lemma first_disk_placed:
  "loop_state (sconst 0) 1
     [\<lparr>px = Fin 20, py = Fin 20, vx = Fin (- 200), vy = Fin (- 200), radius = 20,
       coin_count = 25\<rparr>]
     (sconst 0)"
proof -
  have "find_valid_position [] (sconst 0) DISK_RADIUS (Suc n) = (Some (Fin 20, Fin 20), sconst 0)"
    for n
    by (simp add: uniform_real_distribution_def generate_canonical_def divide_float.simps
       is_valid_position_def
       of_int_f_def WIDTH_def CHART_TOP_def DISK_RADIUS_def Let_def minus_float.simps
       round32_numeral round32_neg_numeral round32_0 round32_at [where k = 0]
       round32_at [where k = 5] pow2_def rne_def)
  from this [of 999] have found:
    "find_valid_position [] (sconst 0) DISK_RADIUS 1000 = (Some (Fin 20, Fin 20), sconst 0)"
    by simp
  have vel: "uniform_real_distribution (Fin (- 200)) (Fin 200) (sconst 0) =
      (Fin (- 200), sconst 0)"
    by (simp add: uniform_real_distribution_def generate_canonical_def of_int_f_def
        Let_def minus_float.simps divide_float.simps round32_numeral round32_neg_numeral
        round32_0)
  from loop_next [OF loop_start _ found vel vel]
  show ?thesis
    by (simp add: DISK_COUNT_def DISK_RADIUS_def MAX_COINS_PER_DISK_def)
qed

theorem placement_failure_is_reported_witness:
  "initialize_population (sconst 0) = Inl (PlacementFailure 1)"
  using placement_failure_is_reported [OF first_disk_placed]
  by (simp add: DISK_COUNT_def DISK_RADIUS_def crowded_search_fails)


text \<open>When the initialisation succeeds, it returns \<^verbatim>\<open>DISK_COUNT\<close> disks.\<close>

lemma place_disks_length:
  assumes "place_disks i ds rng = Inr (ds', rng')" and "i \<le> DISK_COUNT"
  shows "length ds' = length ds + (DISK_COUNT - i)"
  using assms
proof (induction i ds rng rule: place_disks.induct)
  case (1 i ds rng)
  show ?case
  proof (cases "i < DISK_COUNT")
    case False
    with "1.prems" show ?thesis
      by (subst (asm) place_disks.simps) simp
  next
    case True
    obtain pos rng1 where f: "find_valid_position ds rng DISK_RADIUS 1000 = (pos, rng1)"
      by (cases "find_valid_position ds rng DISK_RADIUS 1000")
    from "1.prems"(1) True f obtain x y where pos: "pos = Some (x, y)"
      by (subst (asm) place_disks.simps) (cases pos; auto)
    obtain u rng2 where
      v1: "uniform_real_distribution (Fin (- 200)) (Fin 200) rng1 = (u, rng2)"
      by (cases "uniform_real_distribution (Fin (- 200)) (Fin 200) rng1")
    obtain w rng3 where
      v2: "uniform_real_distribution (Fin (- 200)) (Fin 200) rng2 = (w, rng3)"
      by (cases "uniform_real_distribution (Fin (- 200)) (Fin 200) rng2")
    from "1.prems"(1) True f pos v1 v2 have rec:
      "place_disks (i + 1)
         (ds @ [\<lparr>px = x, py = y, vx = u, vy = w, radius = DISK_RADIUS,
                  coin_count = (if i = 0 then MAX_COINS_PER_DISK else 0)\<rparr>]) rng3 = Inr (ds', rng')"
      by (subst (asm) place_disks.simps) simp
    from "1.IH" [OF True f [symmetric] pos refl refl v1 [symmetric] refl v2 [symmetric] refl rec]
      True
    show ?thesis by simp
  qed
qed

lemma initialize_population_length:
  "initialize_population rng = Inr (ds, rng') \<Longrightarrow> length ds = DISK_COUNT"
  using place_disks_length [of 0 "[]" rng ds rng'] by (simp add: initialize_population_def)

section \<open>The bounds of the coin counts\<close>

text \<open>
  The uniform redistribution of the first program and the plain coin flips of the second
  program and of part\_000 keep every coin count between 0 and the limit; so does a whole
  \<^verbatim>\<open>step\<close> of the first program.
\<close>

lemma coin_flips_bounds:
  "coin_flips n moving rng = (moved, rng') \<Longrightarrow> moving \<le> moved \<and> moved \<le> moving + int n"
proof (induction n arbitrary: moving rng)
  case 0
  then show ?case by simp
next
  case (Suc n)
  obtain u rng1 where d: "uniform_real_distribution (Fin 0) (Fin 1) rng = (u, rng1)"
    by (cases "uniform_real_distribution (Fin 0) (Fin 1) rng")
  with Suc.prems have
    "coin_flips n (if u < Fin 0.5 then moving + 1 else moving) rng1 = (moved, rng')"
    by simp
  from Suc.IH [OF this] show ?case
    by (simp split: if_splits)
qed

lemma standard_exchange_keeps_range:
  assumes "standard_exchange maxc (coin_count d1) (coin_count d2) d1 d2 rng = (e1, e2, rng')"
    and "0 \<le> coin_count d1" and "0 \<le> coin_count d2" and "0 \<le> maxc"
  shows "0 \<le> coin_count e1 \<and> coin_count e1 \<le> maxc \<and>
         0 \<le> coin_count e2 \<and> coin_count e2 \<le> maxc"
proof -
  obtain m2 rng1 where f1: "coin_flips (nat (coin_count d1)) 0 rng = (m2, rng1)"
    by (cases "coin_flips (nat (coin_count d1)) 0 rng")
  obtain m1 rng2 where f2: "coin_flips (nat (coin_count d2)) 0 rng1 = (m1, rng2)"
    by (cases "coin_flips (nat (coin_count d2)) 0 rng1")
  from coin_flips_bounds [OF f1] assms(2) have b2: "0 \<le> m2" "m2 \<le> coin_count d1" by simp_all
  from coin_flips_bounds [OF f2] assms(3) have b1: "0 \<le> m1" "m1 \<le> coin_count d2" by simp_all
  from assms(1) f1 f2 have
    "coin_count e1 = (if coin_count d1 - m2 + m1 > maxc then maxc else coin_count d1 - m2 + m1)"
    "coin_count e2 = (if coin_count d2 + m2 - m1 > maxc then maxc else coin_count d2 + m2 - m1)"
    by (auto simp: standard_exchange_def Let_def)
  with b1 b2 assms(4) show ?thesis by auto
qed

lemma handle_disk_collision_sdl_keeps_range:
  assumes "handle_disk_collision_sdl d1 d2 rng = (e1, e2, rng', collided)"
    and "0 \<le> coin_count d1" and "coin_count d1 \<le> MAX_COINS_PER_DISK_8"
    and "0 \<le> coin_count d2" and "coin_count d2 \<le> MAX_COINS_PER_DISK_8"
  shows "0 \<le> coin_count e1 \<and> coin_count e1 \<le> MAX_COINS_PER_DISK_8 \<and>
         0 \<le> coin_count e2 \<and> coin_count e2 \<le> MAX_COINS_PER_DISK_8"
proof (cases "distance d1 d2 < of_int_f (radius d1 + radius d2)")
  case False
  with assms show ?thesis by (simp add: handle_disk_collision_sdl_def Let_def)
next
  case True
  let ?nx = "(px d2 - px d1) / distance d1 d2" and ?ny = "(py d2 - py d1) / distance d1 d2"
  obtain a1 a2 where a: "elastic_collision ?nx ?ny d1 d2 = (a1, a2)"
    by (cases "elastic_collision ?nx ?ny d1 d2")
  note ca = elastic_collision_frame [OF a]
  from assms(1) True a have
    "standard_exchange MAX_COINS_PER_DISK_8 (coin_count a1) (coin_count a2) a1 a2 rng = (e1, e2, rng')"
    by (simp add: handle_disk_collision_sdl_def Let_def split: prod.splits)
  from standard_exchange_keeps_range [OF this] ca assms(2,4) show ?thesis
    by (simp add: MAX_COINS_PER_DISK_8_def)
qed

lemma handle_disk_collision_basic_keeps_range:
  assumes "handle_disk_collision_basic d1 d2 rng = (e1, e2, rng', collided)"
    and "0 \<le> coin_count d1" and "coin_count d1 \<le> MAX_COINS_PER_DISK_8"
    and "0 \<le> coin_count d2" and "coin_count d2 \<le> MAX_COINS_PER_DISK_8"
  shows "0 \<le> coin_count e1 \<and> coin_count e1 \<le> MAX_COINS_PER_DISK_8 \<and>
         0 \<le> coin_count e2 \<and> coin_count e2 \<le> MAX_COINS_PER_DISK_8"
proof (cases "distance d1 d2 < of_int_f (radius d1 + radius d2)")
  case False
  with assms show ?thesis by (simp add: handle_disk_collision_basic_def Let_def)
next
  case True
  let ?dst = "distance d1 d2"
  let ?nx = "(px d2 - px d1) / ?dst" and ?ny = "(py d2 - py d1) / ?dst"
  obtain a1 a2 where a: "elastic_collision ?nx ?ny d1 d2 = (a1, a2)"
    by (cases "elastic_collision ?nx ?ny d1 d2")
  obtain b1 b2 rng1 where b:
    "standard_exchange MAX_COINS_PER_DISK_8 (coin_count a1) (coin_count a2) a1 a2 rng = (b1, b2, rng1)"
    by (cases "standard_exchange MAX_COINS_PER_DISK_8 (coin_count a1) (coin_count a2) a1 a2 rng")
  obtain c1 c2 where c: "overlap_fix ?nx ?ny ?dst b1 b2 = (c1, c2)"
    by (cases "overlap_fix ?nx ?ny ?dst b1 b2")
  from assms(1) True a b c have "e1 = c1" "e2 = c2"
    by (simp_all add: handle_disk_collision_basic_def Let_def)
  with standard_exchange_keeps_range [OF b] elastic_collision_frame [OF a]
    overlap_fix_frame [OF c] assms(2,4)
  show ?thesis
    by (simp add: MAX_COINS_PER_DISK_8_def)
qed

lemma handle_disk_collision_keeps_range:
  assumes "0 \<le> coin_count d1" and "coin_count d1 \<le> MAX_COINS_PER_DISK"
    and "0 \<le> coin_count d2" and "coin_count d2 \<le> MAX_COINS_PER_DISK"
  shows "\<exists>e1 e2 rng' collided.
           handle_disk_collision d1 d2 rng = Inr (e1, e2, rng', collided) \<and>
           0 \<le> coin_count e1 \<and> coin_count e1 \<le> MAX_COINS_PER_DISK \<and>
           0 \<le> coin_count e2 \<and> coin_count e2 \<le> MAX_COINS_PER_DISK"
proof (cases "distance d1 d2 < of_int_f (radius d1 + radius d2)")
  case False
  then have "handle_disk_collision d1 d2 rng = Inr (d1, d2, rng, False)"
    by (simp add: handle_disk_collision_def Let_def)
  with assms show ?thesis by blast
next
  case True
  have "0 \<le> coin_count d1 + coin_count d2 + 1" using assms(1,3) by simp
  from handle_disk_collision_stages [OF True this, of rng]
  obtain a1 a2 b1 b2 c1 c2 rng' where
    u: "uniform_redistribution MAX_COINS_PER_DISK a1 a2 rng = Inr (b1, b2, rng')" and
    a: "coin_count a1 = coin_count d1" "coin_count a2 = coin_count d2" and
    c: "coin_count c1 = coin_count b1" "coin_count c2 = coin_count b2" and
    h: "handle_disk_collision d1 d2 rng = Inr (c1, c2, rng', True)"
    by blast
  from uniform_redistribution_coins [OF u] assms a c h show ?thesis by auto
qed

lemma update_position_coins:
  "coin_count (update_position speed d dt) = coin_count d"
  by (simp add: update_position_def Let_def)

lemma index_pairs_bounds: "(i, j) \<in> set (index_pairs n) \<Longrightarrow> i < j \<and> j < n"
  by (auto simp: index_pairs_def)

lemma collide_pair_keeps_range:
  assumes "i < length ds" and "j < length ds"
    and "\<forall>d\<in>set ds. 0 \<le> coin_count d \<and> coin_count d \<le> MAX_COINS_PER_DISK"
  shows "\<exists>ds' rng' n'.
           collide_pair (i, j) (Inr (ds, rng, n)) = Inr (ds', rng', n') \<and>
           length ds' = length ds \<and>
           (\<forall>d\<in>set ds'. 0 \<le> coin_count d \<and> coin_count d \<le> MAX_COINS_PER_DISK)"
proof -
  have "ds ! i \<in> set ds" "ds ! j \<in> set ds" using assms(1,2) by simp_all
  with assms(3) have
    "0 \<le> coin_count (ds ! i)" "coin_count (ds ! i) \<le> MAX_COINS_PER_DISK"
    "0 \<le> coin_count (ds ! j)" "coin_count (ds ! j) \<le> MAX_COINS_PER_DISK"
    by simp_all
  from handle_disk_collision_keeps_range [OF this, of rng]
  obtain e1 e2 rng1 hit where
    h: "handle_disk_collision (ds ! i) (ds ! j) rng = Inr (e1, e2, rng1, hit)" and
    e: "0 \<le> coin_count e1 \<and> coin_count e1 \<le> MAX_COINS_PER_DISK"
       "0 \<le> coin_count e2 \<and> coin_count e2 \<le> MAX_COINS_PER_DISK"
    by blast
  have c: "collide_pair (i, j) (Inr (ds, rng, n)) =
           Inr (ds[i := e1, j := e2], rng1, if hit then n + 1 else n)"
    using h by (simp add: collide_pair_def)
  have "set (ds[i := e1, j := e2]) \<subseteq> insert e2 (insert e1 (set ds))"
    by (meson insert_mono order_trans set_update_subset_insert)
  with e assms(3) have
    "\<forall>d\<in>set (ds[i := e1, j := e2]). 0 \<le> coin_count d \<and> coin_count d \<le> MAX_COINS_PER_DISK"
    by auto
  with c show ?thesis by simp
qed

lemma fold_collide_pair_keeps_range:
  assumes "\<forall>(i, j)\<in>set pairs. i < length ds \<and> j < length ds"
    and "\<forall>d\<in>set ds. 0 \<le> coin_count d \<and> coin_count d \<le> MAX_COINS_PER_DISK"
  shows "\<exists>ds' rng' n'.
           fold collide_pair pairs (Inr (ds, rng, n)) = Inr (ds', rng', n') \<and>
           length ds' = length ds \<and>
           (\<forall>d\<in>set ds'. 0 \<le> coin_count d \<and> coin_count d \<le> MAX_COINS_PER_DISK)"
  using assms
proof (induction pairs arbitrary: ds rng n)
  case Nil
  then show ?case by simp
next
  case (Cons p pairs)
  obtain i j where p: "p = (i, j)" by (cases p)
  from Cons.prems(1) p have ij: "i < length ds" "j < length ds" by simp_all
  from collide_pair_keeps_range [OF ij Cons.prems(2), of rng n]
  obtain ds1 rng1 n1 where
    c: "collide_pair (i, j) (Inr (ds, rng, n)) = Inr (ds1, rng1, n1)" and
    l: "length ds1 = length ds" and
    r: "\<forall>d\<in>set ds1. 0 \<le> coin_count d \<and> coin_count d \<le> MAX_COINS_PER_DISK"
    by blast
  from Cons.prems(1) l have "\<forall>(i, j)\<in>set pairs. i < length ds1 \<and> j < length ds1"
    by simp
  from Cons.IH [OF this r, of rng1 n1] l p c show ?case by simp
qed

lemma step_keeps_coin_range:
  assumes "length (the_disks s) = DISK_COUNT"
    and "\<forall>d\<in>set (the_disks s). 0 \<le> coin_count d \<and> coin_count d \<le> MAX_COINS_PER_DISK"
  shows "\<exists>s'. step dt s = Inr s' \<and> length (the_disks s') = DISK_COUNT \<and>
           (\<forall>d\<in>set (the_disks s').
              0 \<le> coin_count d \<and> coin_count d \<le> MAX_COINS_PER_DISK)"
proof -
  let ?moved = "map (\<lambda>d. update_position (g_speedFactor s) d dt) (the_disks s)"
  have len: "length ?moved = DISK_COUNT" using assms(1) by simp
  have idx: "\<forall>(i, j)\<in>set (index_pairs DISK_COUNT). i < length ?moved \<and> j < length ?moved"
    unfolding len using index_pairs_bounds by fastforce
  have rng: "\<forall>d\<in>set ?moved. 0 \<le> coin_count d \<and> coin_count d \<le> MAX_COINS_PER_DISK"
    using assms(2) by (simp add: update_position_coins)
  from fold_collide_pair_keeps_range [OF idx rng, of "the_rng s" 0]
  obtain ds' rng' n' where
    "fold collide_pair (index_pairs DISK_COUNT) (Inr (?moved, the_rng s, 0)) = Inr (ds', rng', n')"
    "length ds' = length ?moved"
    "\<forall>d\<in>set ds'. 0 \<le> coin_count d \<and> coin_count d \<le> MAX_COINS_PER_DISK"
    by blast
  with len show ?thesis
    by (simp add: step_def check_collisions_def Let_def)
qed

text \<open>
  Claim C1.  The coin counts do not stay in \<open>[0, MAX_COINS_PER_DISK]\<close> under every
  exchange: in the third program a disk without coins that meets a disk with one coin can
  win the coin in the special case and once more in the standard exchange, whose number
  of flips was read before the special case ran.  The other disk is left with \<open>-1\<close>
  coins.
\<close>

theorem zero_coin_case_makes_count_negative:
  "handle_disk_collision_zero
     \<lparr>px = Fin 100, py = Fin 100, vx = Fin 0, vy = Fin 0, radius = 40, coin_count = 0\<rparr>
     \<lparr>px = Fin 130, py = Fin 140, vx = Fin 0, vy = Fin 0, radius = 40, coin_count = 1\<rparr>
     (0 ## 2147483648 ## sconst 0) =
   (\<lparr>px = Fin 91, py = Fin 88, vx = Fin 0, vy = Fin 0, radius = 40, coin_count = 2\<rparr>,
    \<lparr>px = Fin 139, py = Fin 152, vx = Fin 0, vy = Fin 0, radius = 40, coin_count = - 1\<rparr>,
    sconst 0, True)"
  by (simp add: handle_disk_collision_zero_def distance_def sqrt_2500 of_int_f_def Let_def
      elastic_collision_def zero_coin_case_def uniform_real_distribution_def
      generate_canonical_def standard_exchange_def overlap_fix_def MAX_COINS_PER_DISK_8_def
      minus_float.simps divide_float.simps round32_numeral round32_0 round32_1
      round32_half round32_2_31 round32_at [where k = "- 1"] round32_at [where k = 3]
      pow2_def rne_def)

section \<open>Coincident centers\<close>

text \<open>
  A frame of a tenth of a second (the \<^verbatim>\<open>float\<close> \<open>0.1f\<close>) at the speed factor 5 takes two
  disks that do not overlap to the same point: both cross the left and the top edge and are
  clamped to the corner.
\<close>

lemma two_disks_into_one_corner:
  "update_position (Fin 5)
     \<lparr>px = Fin 25, py = Fin 25, vx = Fin (- 200), vy = Fin (- 150), radius = 20, coin_count = 1\<rparr>
     (round32 (1 / 10)) =
   \<lparr>px = Fin 20, py = Fin 20, vx = Fin 200, vy = Fin 150, radius = 20, coin_count = 1\<rparr> \<and>
   update_position (Fin 5)
     \<lparr>px = Fin 70, py = Fin 30, vx = Fin (- 120), vy = Fin (- 180), radius = 20, coin_count = 0\<rparr>
     (round32 (1 / 10)) =
   \<lparr>px = Fin 20, py = Fin 20, vx = Fin 120, vy = Fin 180, radius = 20, coin_count = 0\<rparr>"
  by (simp add: update_position_def Let_def of_int_f_def WIDTH_def CHART_TOP_def
      minus_float.simps round32_numeral round32_neg_numeral round32_minus
      round32_at [where k = "- 4"] round32_at [where k = 3] round32_at [where k = 4]
      pow2_def rne_def)

text \<open>
  Claim C3.  Two disks with the same center are not skipped: the distance 0 is below the
  sum of the radii, the normal is \<open>0 / 0\<close>, all coordinates and velocities of both disks
  become NaN, the coins are exchanged and the collision is counted.  The two disks here
  sit in the top left corner, where \<^verbatim>\<open>update_position\<close> puts every disk that has crossed
  both edges within one frame.
\<close>

theorem coincident_centers_are_not_guarded:
  "handle_disk_collision
     \<lparr>px = Fin 20, py = Fin 20, vx = Fin 200, vy = Fin 150, radius = 20, coin_count = 1\<rparr>
     \<lparr>px = Fin 20, py = Fin 20, vx = Fin 120, vy = Fin 180, radius = 20, coin_count = 0\<rparr>
     (sconst 0) =
   Inr (\<lparr>px = NaN, py = NaN, vx = NaN, vy = NaN, radius = 20, coin_count = 0\<rparr>,
        \<lparr>px = NaN, py = NaN, vx = NaN, vy = NaN, radius = 20, coin_count = 1\<rparr>,
        sconst 0, True)"
  by (simp add: handle_disk_collision_def distance_def of_int_f_def Let_def
      elastic_collision_def uniform_redistribution_def splits_of_one
      uniform_int_distribution_def overlap_fix_def MAX_COINS_PER_DISK_def
      minus_float.simps divide_float.simps round32_numeral round32_0)
section \<open>Reflection at the boundary\<close>

text \<open>
  Claim C6, as stated, at \<open>dt = 0\<close>: a disk that touches the left edge and moves towards
  it stays where it is and keeps its velocity, because the disk does not move and the test
  \<^verbatim>\<open>disk.x - disk.radius < 0\<close> is strict.
\<close>

theorem reflection_needs_motion:
  "px (update_position (Fin 5)
         \<lparr>px = Fin 20, py = Fin 200, vx = Fin (- 10), vy = Fin 0, radius = 20, coin_count = 0\<rparr>
         (Fin 0)) = Fin 20 \<and>
   vx (update_position (Fin 5)
         \<lparr>px = Fin 20, py = Fin 200, vx = Fin (- 10), vy = Fin 0, radius = 20, coin_count = 0\<rparr>
         (Fin 0)) = Fin (- 10)"
  by (simp add: update_position_def Let_def of_int_f_def WIDTH_def CHART_TOP_def
      minus_float.simps round32_numeral round32_0)

text \<open>
  The same happens in a frame of a sixtieth of a second at the least speed factor,
  \<open>0.001f\<close>: a disk on the right edge, at \<open>x = 780\<close>, that moves outward with \<open>vx = 1\<close>
  is to advance by \<open>1.67 \<sqdot> 10\<^sup>-\<^sup>5\<close>, less than half the spacing of the \<^verbatim>\<open>float\<close>s
  at 780, so the sum is 780 again.
\<close>

lemma small_step_is_absorbed:
  "update_position (round32 (1 / 1000))
     \<lparr>px = Fin 780, py = Fin 200, vx = Fin 1, vy = Fin 0, radius = 20, coin_count = 0\<rparr>
     (round32 (1 / 60)) =
   \<lparr>px = Fin 780, py = Fin 200, vx = Fin 1, vy = Fin 0, radius = 20, coin_count = 0\<rparr>"
  by (simp add: update_position_def Let_def of_int_f_def WIDTH_def CHART_TOP_def
      minus_float.simps round32_numeral round32_0
      round32_at [where k = "- 16"] round32_at [where k = "- 10"]
      round32_at [where k = "- 6"] round32_at [where k = 9] pow2_def rne_def)

lemma of_int_f_small: "\<bar>i\<bar> \<le> 16777216 \<Longrightarrow> of_int_f i = Fin (real_of_int i)"
  by (simp add: of_int_f_def round32_of_int)

lemma float_diff_of_int:
  "\<bar>i - j\<bar> \<le> 16777216 \<Longrightarrow> Fin (real_of_int i) - Fin (real_of_int j) = Fin (real_of_int (i - j))"
  using round32_of_int [of "i - j"] by (simp add: minus_float.simps)

lemma float_sum_of_int:
  "\<bar>i + j\<bar> \<le> 16777216 \<Longrightarrow> Fin (real_of_int i) + Fin (real_of_int j) = Fin (real_of_int (i + j))"
  using round32_of_int [of "i + j"] by simp

text \<open>
  Claim C6, amended.  \<^verbatim>\<open>update_position\<close> computes the new position \<open>xm\<close> of the disk,
  the \<^verbatim>\<open>float\<close> sum of \<open>x\<close> and the \<^verbatim>\<open>float\<close> product \<open>vx * dt * g_speedFactor\<close>.  If
  \<open>xm\<close> puts the disk across the left edge (\<open>xm - r < 0\<close>), the disk is set to \<open>r\<close>; else
  if it puts the disk across the right edge (\<open>xm + r > WIDTH\<close>), the disk is set to
  \<open>WIDTH - r\<close>; in both cases \<open>vx\<close> is negated; otherwise the disk is at \<open>xm\<close> with the
  \<open>vx\<close> it had.  The \<open>y\<close> axis is treated alike, between 0 and \<^verbatim>\<open>CHART_TOP\<close>, by tests
  on \<open>ym\<close> alone.  In particular, for a disk that touches an edge: when the computed
  position lies across that edge, the disk stays at the edge and the velocity component is
  negated; when the computed position is the old one (a frame time of 0, or a step that the
  sum absorbs), in an arena at least two radii wide, nothing changes.
\<close>

theorem reflection_at_the_computed_position:
  fixes d :: Disk and speed dt :: float
  defines "xm \<equiv> px d + vx d * dt * speed" and "ym \<equiv> py d + vy d * dt * speed"
  defines "r \<equiv> of_int_f (radius d)"
  defines "d' \<equiv> update_position speed d dt"
  shows
   "px d' = (if xm - r < Fin 0 then r
             else if xm + r > of_int_f WIDTH then of_int_f (WIDTH - radius d) else xm) \<and>
    vx d' = (if xm - r < Fin 0 \<or> xm + r > of_int_f WIDTH then - vx d else vx d) \<and>
    py d' = (if ym - r < Fin 0 then r
             else if ym + r > Fin CHART_TOP then Fin CHART_TOP - r else ym) \<and>
    vy d' = (if ym - r < Fin 0 \<or> ym + r > Fin CHART_TOP then - vy d else vy d) \<and>
    radius d' = radius d \<and> coin_count d' = coin_count d \<and>
    (px d = r \<and> xm - r < Fin 0 \<longrightarrow> px d' = px d \<and> vx d' = - vx d) \<and>
    (px d = of_int_f (WIDTH - radius d) \<and> \<not> xm - r < Fin 0 \<and> xm + r > of_int_f WIDTH \<longrightarrow>
       px d' = px d \<and> vx d' = - vx d) \<and>
    (py d = r \<and> ym - r < Fin 0 \<longrightarrow> py d' = py d \<and> vy d' = - vy d) \<and>
    (py d = Fin CHART_TOP - r \<and> \<not> ym - r < Fin 0 \<and> ym + r > Fin CHART_TOP \<longrightarrow>
       py d' = py d \<and> vy d' = - vy d) \<and>
    ((px d = r \<or> px d = of_int_f (WIDTH - radius d)) \<and> xm = px d \<and>
     0 \<le> radius d \<and> 2 * radius d \<le> WIDTH \<longrightarrow> px d' = px d \<and> vx d' = vx d) \<and>
    ((py d = r \<or> py d = Fin CHART_TOP - r) \<and> ym = py d \<and>
     0 \<le> radius d \<and> 2 * real_of_int (radius d) \<le> CHART_TOP \<longrightarrow>
       py d' = py d \<and> vy d' = vy d)"
proof -
  have X: "px d' = (if xm - r < Fin 0 then r
             else if xm + r > of_int_f WIDTH then of_int_f (WIDTH - radius d) else xm)"
    and U: "vx d' = (if xm - r < Fin 0 \<or> xm + r > of_int_f WIDTH then - vx d else vx d)"
    and Y: "py d' = (if ym - r < Fin 0 then r
             else if ym + r > Fin CHART_TOP then Fin CHART_TOP - r else ym)"
    and W: "vy d' = (if ym - r < Fin 0 \<or> ym + r > Fin CHART_TOP then - vy d else vy d)"
    and R: "radius d' = radius d" "coin_count d' = coin_count d"
    unfolding d'_def xm_def ym_def r_def by (simp_all add: update_position_def Let_def)
  have xs: "px d' = px d \<and> vx d' = vx d"
    if "(px d = r \<or> px d = of_int_f (WIDTH - radius d)) \<and> xm = px d \<and>
        0 \<le> radius d \<and> 2 * radius d \<le> WIDTH"
  proof -
    from that have rad: "0 \<le> radius d" "2 * radius d \<le> 800" and xm: "xm = px d"
      and edge: "px d = r \<or> px d = of_int_f (WIDTH - radius d)"
      by (simp_all add: WIDTH_def)
    have rr: "r = Fin (real_of_int (radius d))"
      unfolding r_def using rad by (intro of_int_f_small) simp
    have ww: "of_int_f WIDTH = Fin (real_of_int 800)"
      "of_int_f (WIDTH - radius d) = Fin (real_of_int (800 - radius d))"
      using rad by (simp_all add: WIDTH_def of_int_f_small)
    from edge have "\<not> xm - r < Fin 0 \<and> \<not> xm + r > of_int_f WIDTH"
    proof
      assume "px d = r"
      then have x: "xm = Fin (real_of_int (radius d))" by (simp only: xm rr)
      have "xm - r = Fin (real_of_int (radius d - radius d))"
        unfolding x rr by (rule float_diff_of_int) simp
      moreover have "xm + r = Fin (real_of_int (radius d + radius d))"
        unfolding x rr using rad by (intro float_sum_of_int) simp
      ultimately show ?thesis
        using rad by (simp add: ww)
    next
      assume "px d = of_int_f (WIDTH - radius d)"
      then have x: "xm = Fin (real_of_int (800 - radius d))" by (simp only: xm ww)
      have "xm - r = Fin (real_of_int (800 - radius d - radius d))"
        unfolding x rr using rad by (intro float_diff_of_int) simp
      moreover have "xm + r = Fin (real_of_int (800 - radius d + radius d))"
        unfolding x rr by (rule float_sum_of_int) simp
      ultimately show ?thesis
        using rad by (simp add: ww)
    qed
    then show ?thesis using X U xm by simp
  qed
  have ys: "py d' = py d \<and> vy d' = vy d"
    if "(py d = r \<or> py d = Fin CHART_TOP - r) \<and> ym = py d \<and>
        0 \<le> radius d \<and> 2 * real_of_int (radius d) \<le> CHART_TOP"
  proof -
    from that have rad: "0 \<le> radius d" "2 * radius d \<le> 400" and ym: "ym = py d"
      and edge: "py d = r \<or> py d = Fin CHART_TOP - r"
      by (simp_all add: CHART_TOP_def)
    have rr: "r = Fin (real_of_int (radius d))"
      unfolding r_def using rad by (intro of_int_f_small) simp
    have cc: "Fin CHART_TOP = Fin (real_of_int 400)"
      by (simp add: CHART_TOP_def)
    from edge have "\<not> ym - r < Fin 0 \<and> \<not> ym + r > Fin CHART_TOP"
    proof
      assume "py d = r"
      then have y: "ym = Fin (real_of_int (radius d))" by (simp only: ym rr)
      have "ym - r = Fin (real_of_int (radius d - radius d))"
        unfolding y rr by (rule float_diff_of_int) simp
      moreover have "ym + r = Fin (real_of_int (radius d + radius d))"
        unfolding y rr using rad by (intro float_sum_of_int) simp
      ultimately show ?thesis
        using rad by (simp add: CHART_TOP_def)
    next
      assume "py d = Fin CHART_TOP - r"
      moreover have "Fin (real_of_int 400) - Fin (real_of_int (radius d)) =
          Fin (real_of_int (400 - radius d))"
        using rad by (intro float_diff_of_int) simp
      ultimately have y: "ym = Fin (real_of_int (400 - radius d))" by (simp only: ym rr cc)
      have "ym - r = Fin (real_of_int (400 - radius d - radius d))"
        unfolding y rr using rad by (intro float_diff_of_int) simp
      moreover have "ym + r = Fin (real_of_int (400 - radius d + radius d))"
        unfolding y rr by (rule float_sum_of_int) simp
      ultimately show ?thesis
        using rad by (simp add: CHART_TOP_def)
    qed
    then show ?thesis using Y W ym by simp
  qed
  show ?thesis
    using X U Y W R xs ys by simp
qed

theorem reflection_at_the_computed_position_witness:
  "update_position (Fin 5)
     \<lparr>px = Fin 20, py = Fin 380, vx = Fin (- 10), vy = Fin 7, radius = 20, coin_count = 0\<rparr>
     (round32 (1 / 60)) =
   \<lparr>px = Fin 20, py = Fin 380, vx = Fin 10, vy = Fin (- 7), radius = 20, coin_count = 0\<rparr> \<and>
   update_position (round32 (1 / 1000))
     \<lparr>px = Fin 780, py = Fin 200, vx = Fin 1, vy = Fin 0, radius = 20, coin_count = 0\<rparr>
     (round32 (1 / 60)) =
   \<lparr>px = Fin 780, py = Fin 200, vx = Fin 1, vy = Fin 0, radius = 20, coin_count = 0\<rparr>"
proof -
  let ?d = "\<lparr>px = Fin 20, py = Fin 380, vx = Fin (- 10), vy = Fin 7, radius = 20,
              coin_count = 0\<rparr>"
  let ?e = "\<lparr>px = Fin 780, py = Fin 200, vx = Fin 1, vy = Fin 0, radius = 20,
              coin_count = 0\<rparr>"
  note ev = Let_def of_int_f_def WIDTH_def CHART_TOP_def
      minus_float.simps round32_numeral round32_neg_numeral round32_0 round32_minus
      round32_at [where k = "- 16"] round32_at [where k = "- 10"]
      round32_at [where k = "- 6"] round32_at [where k = "- 4"] round32_at [where k = "- 3"]
      round32_at [where k = "- 1"] round32_at [where k = 4] round32_at [where k = 5]
      round32_at [where k = 8] round32_at [where k = 9] pow2_def rne_def
  have "px (update_position (Fin 5) ?d (round32 (1 / 60))) = Fin 20 \<and>
        vx (update_position (Fin 5) ?d (round32 (1 / 60))) = Fin 10 \<and>
        py (update_position (Fin 5) ?d (round32 (1 / 60))) = Fin 380 \<and>
        vy (update_position (Fin 5) ?d (round32 (1 / 60))) = Fin (- 7) \<and>
        radius (update_position (Fin 5) ?d (round32 (1 / 60))) = 20 \<and>
        coin_count (update_position (Fin 5) ?d (round32 (1 / 60))) = 0"
    using reflection_at_the_computed_position
      [where d = ?d and dt = "round32 (1 / 60)" and speed = "Fin 5"]
    by (simp add: ev)
  moreover have
       "px (update_position (round32 (1 / 1000)) ?e (round32 (1 / 60))) = Fin 780 \<and>
        vx (update_position (round32 (1 / 1000)) ?e (round32 (1 / 60))) = Fin 1 \<and>
        py (update_position (round32 (1 / 1000)) ?e (round32 (1 / 60))) = Fin 200 \<and>
        vy (update_position (round32 (1 / 1000)) ?e (round32 (1 / 60))) = Fin 0 \<and>
        radius (update_position (round32 (1 / 1000)) ?e (round32 (1 / 60))) = 20 \<and>
        coin_count (update_position (round32 (1 / 1000)) ?e (round32 (1 / 60))) = 0"
    using reflection_at_the_computed_position
      [where d = ?e and dt = "round32 (1 / 60)" and speed = "round32 (1 / 1000)"]
    by (simp add: ev)
  ultimately show ?thesis
    by (simp add: Disk.equality)
qed

section \<open>Sampling\<close>

lemma index_pairs_6:
  "index_pairs 6 =
    [(0, 1), (0, 2), (0, 3), (0, 4), (0, 5), (1, 2), (1, 3), (1, 4), (1, 5),
     (2, 3), (2, 4), (2, 5), (3, 4), (3, 5), (4, 5)]"
  by code_simp

lemma sqrt_squares:
  "sqrt 10000 = 100" "sqrt 22500 = 150" "sqrt 40000 = 200" "sqrt 62500 = 250"
  "sqrt 90000 = 300" "sqrt 122500 = 350" "sqrt 160000 = 400" "sqrt 202500 = 450"
  using real_sqrt_abs2 [of 100] real_sqrt_abs2 [of 150] real_sqrt_abs2 [of 200]
    real_sqrt_abs2 [of 250] real_sqrt_abs2 [of 300] real_sqrt_abs2 [of 350]
    real_sqrt_abs2 [of 400] real_sqrt_abs2 [of 450]
  by simp_all

lemma list_update_Cons_numeral:
  "(x # xs)[numeral v := y] = x # xs[numeral v - 1 := y]"
  by (simp add: numeral_eq_Suc)

lemma coin_flips_all_heads: "coin_flips n m (sconst 0) = (m + int n, sconst 0)"
  by (induction n arbitrary: m)
    (simp_all add: uniform_real_distribution_def generate_canonical_def of_int_f_def Let_def
       minus_float.simps divide_float.simps round32_0 round32_1)

text \<open>
  Claim C7, as stated, on the second program: a frame of one millisecond in which two
  disks collide appends a sample for every coin count and adds to the cumulative counts.
  That program samples at each collision and has no time throttle.  The six disks rest on
  a line, the first two 50 apart and every other pair 100 or more.
\<close>

theorem sdl_samples_at_every_collision:
  "tick_sdl (round32 (1 / 1000))
     \<lparr>the_disks =
       [\<lparr>px = Fin 100, py = Fin 100, vx = Fin 0, vy = Fin 0, radius = 40, coin_count = 8\<rparr>,
        \<lparr>px = Fin 130, py = Fin 140, vx = Fin 0, vy = Fin 0, radius = 40, coin_count = 0\<rparr>,
        \<lparr>px = Fin 190, py = Fin 220, vx = Fin 0, vy = Fin 0, radius = 40, coin_count = 0\<rparr>,
        \<lparr>px = Fin 250, py = Fin 300, vx = Fin 0, vy = Fin 0, radius = 40, coin_count = 0\<rparr>,
        \<lparr>px = Fin 310, py = Fin 380, vx = Fin 0, vy = Fin 0, radius = 40, coin_count = 0\<rparr>,
        \<lparr>px = Fin 370, py = Fin 460, vx = Fin 0, vy = Fin 0, radius = 40, coin_count = 0\<rparr>],
      the_rng = sconst 0, g_speedFactor = Fin 1, collision_count = 0,
      cumulative_counts = [0, 0, 0, 0, 0, 0, 0, 0, 0],
      xdata = [[], [], [], [], [], [], [], [], []],
      ydata = [[], [], [], [], [], [], [], [], []],
      g_coinFraction = [], time_since_plot = Fin 0\<rparr> =
   Inr
     \<lparr>the_disks =
       [\<lparr>px = Fin 100, py = Fin 100, vx = Fin 0, vy = Fin 0, radius = 40, coin_count = 0\<rparr>,
        \<lparr>px = Fin 130, py = Fin 140, vx = Fin 0, vy = Fin 0, radius = 40, coin_count = 8\<rparr>,
        \<lparr>px = Fin 190, py = Fin 220, vx = Fin 0, vy = Fin 0, radius = 40, coin_count = 0\<rparr>,
        \<lparr>px = Fin 250, py = Fin 300, vx = Fin 0, vy = Fin 0, radius = 40, coin_count = 0\<rparr>,
        \<lparr>px = Fin 310, py = Fin 380, vx = Fin 0, vy = Fin 0, radius = 40, coin_count = 0\<rparr>,
        \<lparr>px = Fin 370, py = Fin 460, vx = Fin 0, vy = Fin 0, radius = 40, coin_count = 0\<rparr>],
      the_rng = sconst 0, g_speedFactor = Fin 1, collision_count = 1,
      cumulative_counts = [5, 0, 0, 0, 0, 0, 0, 0, 1],
      xdata = [[Fin 1], [Fin 1], [Fin 1], [Fin 1], [Fin 1], [Fin 1], [Fin 1], [Fin 1], [Fin 1]],
      ydata = [[Fin (7505999378950827 / 9007199254740992)], [Fin 0], [Fin 0], [Fin 0],
               [Fin 0], [Fin 0], [Fin 0], [Fin 0],
               [Fin (6004799503160661 / 36028797018963968)]],
      g_coinFraction = [], time_since_plot = Fin 0\<rparr>"
  apply (simp only: tick_sdl_def DISK_COUNT_6_def index_pairs_6)
  apply (simp add: update_position_sdl_def Let_def DISK_COUNT_6_def
      of_int_f_def of_int_d_def ddiv_def WIDTH_def HEIGHT_def collide_pair_sdl_def
      handle_disk_collision_sdl_def distance_def sqrt_2500 sqrt_squares
      list_update_Cons_numeral elastic_collision_def
      standard_exchange_def coin_flips_all_heads MAX_COINS_PER_DISK_8_def update_plot_sdl_def
      minus_float.simps divide_float.simps round32_numeral round32_0
      round64_numeral round64_0 round64_1
      round32_at [where k = "- 10"] round32_at [where k = "- 1"]
      round64_at [where k = "- 1"] round64_at [where k = "- 3"] pow2_def rne_def
      numeral_eq_Suc)
  done

text \<open>
  \<^verbatim>\<open>time_since_plot\<close> is a \<^verbatim>\<open>float\<close>, and each frame time is added to it with rounding.
  Five frames of 16606 microseconds and one of 16970, from 0: the six frame times sum to
  less than \<open>0.1f\<close>, and \<^verbatim>\<open>time_since_plot\<close> is \<open>0.1f\<close> after the sixth.
\<close>

lemma accumulated_time_is_rounded:
  "Fin 0 + round32 (16606 / 1000000) + round32 (16606 / 1000000) +
     round32 (16606 / 1000000) + round32 (16606 / 1000000) + round32 (16606 / 1000000) +
     round32 (16970 / 1000000) = round32 (1 / 10) \<and>
   round32 (16606 / 1000000) = Fin (4457639 / 268435456) \<and>
   round32 (16970 / 1000000) = Fin (9110699 / 536870912) \<and>
   round32 (1 / 10) = Fin (13421773 / 134217728) \<and>
   5 * (4457639 / 268435456) + 9110699 / 536870912 < (13421773 / 134217728 :: real)"
  by (simp add: round32_at [where k = "- 6"] round32_at [where k = "- 5"]
      round32_at [where k = "- 4"] pow2_def rne_def)

lemma step_frame:
  assumes "step dt s = Inr s1"
  shows "cumulative_counts s1 = cumulative_counts s \<and> xdata s1 = xdata s \<and>
         ydata s1 = ydata s \<and> g_coinFraction s1 = g_coinFraction s \<and>
         time_since_plot s1 = time_since_plot s \<and> g_speedFactor s1 = g_speedFactor s"
  using assms by (auto simp: step_def Let_def split: sum.splits)

lemma maybe_sample_skip:
  assumes "\<not> round32 (1 / 10) \<le> time_since_plot s + dt \<or> collision_count s \<le> 0"
  shows "maybe_sample dt s = Inr (s\<lparr>time_since_plot := time_since_plot s + dt\<rparr>)"
  using assms by (auto simp: maybe_sample_def Let_def)

text \<open>
  Claim C7, amended to the first program.  A frame whose collisions have been resolved
  leaves the cumulative counts, the sample series and the latest averages as they are
  whenever the program's test fails: the \<^verbatim>\<open>float\<close> sum of \<^verbatim>\<open>time_since_plot\<close> and the
  frame time is below the \<^verbatim>\<open>float\<close> \<open>0.1f\<close>, or no collision has been counted up to and
  including this frame.  The frame time is added to \<^verbatim>\<open>time_since_plot\<close> all the same.
\<close>

theorem sampling_is_throttled:
  assumes "step dt s = Inr s1"
    and "\<not> round32 (1 / 10) \<le> time_since_plot s + dt \<or> collision_count s1 \<le> 0"
  shows "\<exists>s'. tick dt s = Inr s' \<and>
           cumulative_counts s' = cumulative_counts s \<and> xdata s' = xdata s \<and>
           ydata s' = ydata s \<and> g_coinFraction s' = g_coinFraction s \<and>
           time_since_plot s' = time_since_plot s + dt"
proof -
  note fr = step_frame [OF assms(1)]
  have "\<not> round32 (1 / 10) \<le> time_since_plot s1 + dt \<or> collision_count s1 \<le> 0"
    using assms(2) fr by simp
  then have "maybe_sample dt s1 = Inr (s1\<lparr>time_since_plot := time_since_plot s1 + dt\<rparr>)"
    by (rule maybe_sample_skip)
  then have "tick dt s = Inr (s1\<lparr>time_since_plot := time_since_plot s1 + dt\<rparr>)"
    using assms(1) by (simp add: tick_def)
  then show ?thesis
    using fr by simp
qed

theorem sampling_is_throttled_witness:
  "\<exists>s1 s'. step (Fin (1 / 64))
           \<lparr>the_disks =
              map (\<lambda>i. \<lparr>px = Fin (50 + 100 * real (i mod 5)), py = Fin (50 + 100 * real (i div 5)),
                         vx = Fin 30, vy = Fin (- 40), radius = 20,
                         coin_count = (if i = 0 then 25 else 0)\<rparr>) [0..<20],
            the_rng = sconst 0, g_speedFactor = Fin 5, collision_count = 3,
            cumulative_counts = replicate 26 0, xdata = replicate 26 [], ydata = replicate 26 [],
            g_coinFraction = replicate 26 (Fin 0), time_since_plot = Fin (1 / 16)\<rparr> = Inr s1 \<and>
         tick (Fin (1 / 64))
           \<lparr>the_disks =
              map (\<lambda>i. \<lparr>px = Fin (50 + 100 * real (i mod 5)), py = Fin (50 + 100 * real (i div 5)),
                         vx = Fin 30, vy = Fin (- 40), radius = 20,
                         coin_count = (if i = 0 then 25 else 0)\<rparr>) [0..<20],
            the_rng = sconst 0, g_speedFactor = Fin 5, collision_count = 3,
            cumulative_counts = replicate 26 0, xdata = replicate 26 [], ydata = replicate 26 [],
            g_coinFraction = replicate 26 (Fin 0), time_since_plot = Fin (1 / 16)\<rparr> = Inr s' \<and>
         cumulative_counts s' = replicate 26 0 \<and> xdata s' = replicate 26 [] \<and>
         ydata s' = replicate 26 [] \<and> g_coinFraction s' = replicate 26 (Fin 0) \<and>
         time_since_plot s' = Fin (5 / 64)"
proof -
  let ?S = "\<lparr>the_disks =
              map (\<lambda>i. \<lparr>px = Fin (50 + 100 * real (i mod 5)), py = Fin (50 + 100 * real (i div 5)),
                         vx = Fin 30, vy = Fin (- 40), radius = 20,
                         coin_count = (if i = 0 then 25 else 0)\<rparr>) [0..<20],
            the_rng = sconst 0, g_speedFactor = Fin 5, collision_count = 3,
            cumulative_counts = replicate 26 0, xdata = replicate 26 [], ydata = replicate 26 [],
            g_coinFraction = replicate 26 (Fin 0), time_since_plot = Fin (1 / 16)\<rparr>"
  have len: "length (the_disks ?S) = DISK_COUNT"
    by (simp add: DISK_COUNT_def)
  have rg: "\<forall>d\<in>set (the_disks ?S). 0 \<le> coin_count d \<and> coin_count d \<le> MAX_COINS_PER_DISK"
    by (simp add: MAX_COINS_PER_DISK_def)
  from step_keeps_coin_range [OF len rg, of "Fin (1 / 64)"]
  obtain s1 where st: "step (Fin (1 / 64)) ?S = Inr s1"
    by blast
  have sum: "round32 (5 / 64) = Fin (5 / 64)"
    by (simp add: round32_at [where k = "- 4"] pow2_def rne_def)
  have tenth: "round32 (1 / 10) = Fin (13421773 / 134217728)"
    by (simp add: round32_at [where k = "- 4"] pow2_def rne_def)
  have "\<not> round32 (1 / 10) \<le> time_since_plot ?S + Fin (1 / 64) \<or> collision_count s1 \<le> 0"
    by (simp add: sum tenth)
  from sampling_is_throttled [OF st this] st show ?thesis
    by (simp add: sum)
qed

end
